theory Spec2Isabelle
  imports Main "HOL-Library.Char_ord" "HOL-Library.List_Lexorder" "HOL-Library.AList"
begin

section \<open>The yagalog logger\<close>

text \<open>
  A shallow embedding of package \<open>logger\<close>. A Go \<open>string\<close> is a sequence of bytes and
  is modelled as a \<open>string\<close> (\<open>char list\<close>, one \<open>char\<close> per byte). The logger talks to
  its surroundings (the console writer, the file system, the clock, the call stack, the
  process) through library calls; what those calls do to the surroundings is kept in a
  record \<open>world\<close>, and what they read from the surroundings at the moment of a call is
  kept in a record \<open>env\<close>. The mutex of the logger serialises concurrent callers and has
  no content in a sequential model.
\<close>

subsection \<open>Severities\<close>

type_synonym LogLevel = int

definition DEBUG :: LogLevel where "DEBUG = 0"
definition INFO :: LogLevel where "INFO = 1"
definition WARNING :: LogLevel where "WARNING = 2"
definition ERROR :: LogLevel where "ERROR = 3"
definition FATAL :: LogLevel where "FATAL = 4"

lemmas level_defs = DEBUG_def INFO_def WARNING_def ERROR_def FATAL_def

subsection \<open>The surroundings\<close>

type_synonym writer = nat
type_synonym handle = nat

text \<open>\<open>os.Stdout\<close> as a console destination.\<close>

definition Stdout :: writer where "Stdout = 1"

text \<open>Values passed through \<open>...interface{}\<close>.\<close>

datatype gvalue = GString string | GInt int | GBool bool

text \<open>The five colours of package \<open>color\<close> that the logger uses.\<close>

datatype attribute = FgRed | FgGreen | FgYellow | FgMagenta | FgCyan

text \<open>\<open>*fs.PathError\<close>: operation, path and the underlying cause.\<close>

datatype error = PathError string string string

datatype status = Running | Exited int | Panicked string

text \<open>
  What a library call reads at the moment it is made. \<open>Sprintf\<close> is \<open>fmt.Sprintf\<close>,
  \<open>paint\<close> the escape codes package \<open>color\<close> puts around a string when colours are on,
  \<open>clock\<close> the time of day as the standard logger prints it under \<open>log.Ltime\<close>,
  \<open>Now_Format\<close> is \<open>time.Now().Format\<close>, \<open>Caller\<close> is the frame \<open>runtime.Caller(2)\<close>
  finds (\<open>None\<close> when it reports \<open>ok = false\<close>), \<open>open_errno\<close> says why the system
  refuses to open a path (\<open>None\<close> when it does not refuse) and \<open>close_errno\<close> which
  fault the system reports when a descriptor is closed.
\<close>

record env =
  Sprintf :: "string \<Rightarrow> gvalue list \<Rightarrow> string"
  paint :: "attribute \<Rightarrow> string \<Rightarrow> string"
  Getenv :: "string \<Rightarrow> string"
  clock :: string
  Now_Format :: "string \<Rightarrow> string"
  Caller :: "(string \<times> int) option"
  open_errno :: "string \<Rightarrow> string option"
  close_errno :: "string option"

text \<open>
  What the calls leave behind: \<open>written\<close> holds every \<open>Write\<close> a console destination
  received, in order; \<open>fds\<close> is the table of the files opened so far, a handle being an
  index into it and an entry the path with the flag "still open"; \<open>disk\<close> is the content
  of the files by path; \<open>NoColor\<close> is the package variable \<open>color.NoColor\<close>;
  \<open>formatted\<close> counts the message templates that went through \<open>fmt.Sprintf\<close>; \<open>status\<close>
  says whether the process still runs. A write to an open descriptor is taken to
  succeed.
\<close>

record world =
  written :: "(writer \<times> string) list"
  fds :: "(string \<times> bool) list"
  disk :: "string \<rightharpoonup> string"
  NoColor :: bool
  formatted :: nat
  status :: status

subsection \<open>Files (package os)\<close>

definition is_open :: "world \<Rightarrow> handle \<Rightarrow> bool" where
  "is_open w h \<longleftrightarrow> h < length (fds w) \<and> snd (fds w ! h)"

definition fd_path :: "world \<Rightarrow> handle \<Rightarrow> string" where
  "fd_path w h = (if h < length (fds w) then fst (fds w ! h) else [])"

definition content :: "world \<Rightarrow> string \<Rightarrow> string" where
  "content w p = (case disk w p of None \<Rightarrow> [] | Some c \<Rightarrow> c)"

text \<open>\<open>os.OpenFile(path, O_APPEND|O_CREATE|O_WRONLY, 0666)\<close>: the file is created when it
  does not exist, and what it holds is kept.\<close>

definition OpenFile :: "env \<Rightarrow> string \<Rightarrow> world \<Rightarrow> (error + handle) \<times> world" where
  "OpenFile e path w =
     (case open_errno e path of
        Some cause \<Rightarrow> (Inl (PathError ''open'' path cause), w)
      | None \<Rightarrow> (Inr (length (fds w)),
                 w\<lparr>fds := fds w @ [(path, True)],
                   disk := (disk w)(path \<mapsto> content w path)\<rparr>))"

text \<open>\<open>(*os.File).Close\<close>: a second call on the same file reports that the file is
  already closed; the first one releases the descriptor whatever the system reports.\<close>

definition File_Close :: "env \<Rightarrow> handle \<Rightarrow> world \<Rightarrow> error option \<times> world" where
  "File_Close e h w =
     (if is_open w h
      then (map_option (PathError ''close'' (fd_path w h)) (close_errno e),
            w\<lparr>fds := (fds w)[h := (fd_path w h, False)]\<rparr>)
      else (Some (PathError ''close'' (fd_path w h) ''file already closed''), w))"

text \<open>\<open>(*os.File).Write\<close> on a file opened for appending.\<close>

definition File_Write :: "handle \<Rightarrow> string \<Rightarrow> world \<Rightarrow> error option \<times> world" where
  "File_Write h b w =
     (if is_open w h
      then (None, w\<lparr>disk := (disk w)(fd_path w h \<mapsto> content w (fd_path w h) @ b)\<rparr>)
      else (Some (PathError ''write'' (fd_path w h) ''file already closed''), w))"

text \<open>\<open>fmt.Fprintln(f, line)\<close> with one string operand: one write of the line and a
  newline.\<close>

definition Fprintln :: "handle \<Rightarrow> string \<Rightarrow> world \<Rightarrow> error option \<times> world" where
  "Fprintln h line w = File_Write h (line @ [CHR 0x0A]) w"

subsection \<open>The standard logger (package log)\<close>

text \<open>A \<open>*log.Logger\<close> made by \<open>log.New(out, prefix, log.Ltime)\<close>; \<open>None\<close> is the nil
  pointer.\<close>

record std_Logger =
  lg_out :: writer
  lg_prefix :: string

definition log_New :: "writer \<Rightarrow> string \<Rightarrow> std_Logger option" where
  "log_New w p = Some \<lparr>lg_out = w, lg_prefix = p\<rparr>"

text \<open>\<open>Println(msg)\<close>: prefix, time of day, a space, the message and a newline, handed
  to the destination in a single \<open>Write\<close>.\<close>

definition Println :: "env \<Rightarrow> std_Logger option \<Rightarrow> string \<Rightarrow> world \<Rightarrow> world" where
  "Println e lg msg w =
     (case lg of
        None \<Rightarrow> w\<lparr>status := Panicked ''nil pointer dereference''\<rparr>
      | Some g \<Rightarrow> w\<lparr>written := written w @
                        [(lg_out g, lg_prefix g @ clock e @ '' '' @ msg @ [CHR 0x0A])]\<rparr>)"

subsection \<open>Colours (package color)\<close>

definition colorString :: "env \<Rightarrow> world \<Rightarrow> attribute \<Rightarrow> string \<Rightarrow> string" where
  "colorString e w a s = (if NoColor w then s else paint e a s)"

subsection \<open>Small library functions\<close>

text \<open>\<open>filepath.Base\<close> with \<open>/\<close> as the separator.\<close>

definition Base :: "string \<Rightarrow> string" where
  "Base path =
     (if path = [] then ''.''
      else let p = rev (dropWhile (\<lambda>c. c = CHR ''/'') (rev path));
               q = rev (takeWhile (\<lambda>c. c \<noteq> CHR ''/'') (rev p))
           in if q = [] then ''/'' else q)"

definition digit :: "nat \<Rightarrow> char" where
  "digit n = ''0123456789'' ! n"

fun digits :: "nat \<Rightarrow> string" where
  "digits n = (if n < 10 then [digit n] else digits (n div 10) @ [digit (n mod 10)])"

text \<open>The verb \<open>%d\<close> on an \<open>int\<close>.\<close>

definition Itoa :: "int \<Rightarrow> string" where
  "Itoa i = (if i < 0 then CHR ''-'' # digits (nat (- i)) else digits (nat i))"

subsection \<open>UTF-8 (package unicode/utf8)\<close>

definition RuneError :: nat where "RuneError = 0xFFFD"

text \<open>\<open>utf8.DecodeRuneInString\<close>: the rune at the head of the string and its width in
  bytes; \<open>(RuneError, 1)\<close> for a byte that starts no well-formed encoding. The tables
  \<open>first\<close> and \<open>acceptRanges\<close> of the package are written out as comparisons.\<close>

definition DecodeRuneInString :: "string \<Rightarrow> nat \<times> nat" where
  "DecodeRuneInString s =
     (if length s < 1 then (RuneError, 0)
      else
        let s0 = of_char (s ! 0) :: nat in
        if s0 < 0x80 then (s0, 1)
        else if s0 < 0xC2 \<or> 0xF4 < s0 then (RuneError, 1)
        else
          let sz = (if s0 < 0xE0 then 2 else if s0 < 0xF0 then 3 else 4) :: nat;
              lo = (if s0 = 0xE0 then 0xA0 else if s0 = 0xF0 then 0x90 else 0x80) :: nat;
              hi = (if s0 = 0xED then 0x9F else if s0 = 0xF4 then 0x8F else 0xBF) :: nat
          in
            if length s < sz then (RuneError, 1)
            else
              let s1 = of_char (s ! 1) :: nat in
              if s1 < lo \<or> hi < s1 then (RuneError, 1)
              else if sz \<le> 2 then ((s0 mod 32) * 64 + s1 mod 64, 2)
              else
                let s2 = of_char (s ! 2) :: nat in
                if s2 < 0x80 \<or> 0xBF < s2 then (RuneError, 1)
                else if sz \<le> 3
                  then ((s0 mod 16) * 4096 + (s1 mod 64) * 64 + s2 mod 64, 3)
                else
                  let s3 = of_char (s ! 3) :: nat in
                  if s3 < 0x80 \<or> 0xBF < s3 then (RuneError, 1)
                  else ((s0 mod 8) * 262144 + (s1 mod 64) * 4096
                          + (s2 mod 64) * 64 + s3 mod 64, 4))"

subsection \<open>The JSON encoder (package encoding/json)\<close>

definition quote :: char where "quote = CHR 0x22"
definition bslash :: char where "bslash = CHR 0x5C"
definition newline :: char where "newline = CHR 0x0A"

definition hex :: "nat \<Rightarrow> char" where
  "hex n = ''0123456789abcdef'' ! n"

text \<open>The tables \<open>safeSet\<close> and \<open>htmlSafeSet\<close>, on bytes below \<open>utf8.RuneSelf\<close>.\<close>

definition safeSet :: "char \<Rightarrow> bool" where
  "safeSet b \<longleftrightarrow> 0x20 \<le> (of_char b :: nat) \<and> b \<noteq> quote \<and> b \<noteq> bslash"

definition htmlSafeSet :: "char \<Rightarrow> bool" where
  "htmlSafeSet b \<longleftrightarrow>
     safeSet b \<and> b \<noteq> CHR ''<'' \<and> b \<noteq> CHR ''>'' \<and> b \<noteq> CHR ''&''"

text \<open>The \<open>switch\<close> of \<open>appendString\<close> on a byte that is not safe.\<close>

definition escape_byte :: "char \<Rightarrow> string" where
  "escape_byte b =
     (if b = bslash \<or> b = quote then [bslash, b]
      else if b = CHR 0x08 then [bslash, CHR ''b'']
      else if b = CHR 0x0C then [bslash, CHR ''f'']
      else if b = CHR 0x0A then [bslash, CHR ''n'']
      else if b = CHR 0x0D then [bslash, CHR ''r'']
      else if b = CHR 0x09 then [bslash, CHR ''t'']
      else [bslash, CHR ''u'', CHR ''0'', CHR ''0'',
            hex (of_char b div 16), hex (of_char b mod 16)])"

text \<open>
  The loop of \<open>appendString\<close>, from the position the loop has reached to the end of the
  source. The source copies the stretches between two escapes in one piece (its
  variable \<open>start\<close>); the bytes written are the same as when each safe byte and each
  well-formed rune is copied as it is met.
\<close>

function appendString_from :: "bool \<Rightarrow> string \<Rightarrow> string" where
  "appendString_from escapeHTML [] = []"
| "appendString_from escapeHTML (b # bs) =
     (if (of_char b :: nat) < 0x80 then
        (if htmlSafeSet b \<or> (\<not> escapeHTML \<and> safeSet b)
         then b # appendString_from escapeHTML bs
         else escape_byte b @ appendString_from escapeHTML bs)
      else
        let c = fst (DecodeRuneInString (take 4 (b # bs)));
            size = snd (DecodeRuneInString (take 4 (b # bs)))
        in
          if c = RuneError \<and> size = 1
            then [bslash, CHR ''u'', CHR ''f'', CHR ''f'', CHR ''f'', CHR ''d'']
                   @ appendString_from escapeHTML (drop size (b # bs))
          else if c = 0x2028 \<or> c = 0x2029
            then [bslash, CHR ''u'', CHR ''2'', CHR ''0'', CHR ''2'', hex (c mod 16)]
                   @ appendString_from escapeHTML (drop size (b # bs))
          else take size (b # bs) @ appendString_from escapeHTML (drop size (b # bs)))"
  by pat_completeness auto
termination
proof (relation "measure (\<lambda>(e, s). length s)", goal_cases)
  have width: "0 < snd (DecodeRuneInString (take 4 (b # bs)))" for b bs
    by (simp add: DecodeRuneInString_def Let_def)
  {
    case (4 escapeHTML b bs x xa)
    then show ?case using width [of b bs] by simp
  next
    case (5 escapeHTML b bs x xa)
    then show ?case using width [of b bs] by simp
  next
    case (6 escapeHTML b bs x xa)
    then show ?case using width [of b bs] by simp
  }
qed simp_all

definition appendString :: "bool \<Rightarrow> string \<Rightarrow> string" where
  "appendString escapeHTML src = quote # appendString_from escapeHTML src @ [quote]"

text \<open>
  The encoding of a \<open>map[string]any\<close> whose values are strings, the map given by its
  key-value pairs: the pairs in the order of their keys, a comma between two of them.
\<close>

fun encode_pairs :: "bool \<Rightarrow> (string \<times> string) list \<Rightarrow> string" where
  "encode_pairs escapeHTML [] = []"
| "encode_pairs escapeHTML [(k, v)] =
     appendString escapeHTML k @ '':'' @ appendString escapeHTML v"
| "encode_pairs escapeHTML ((k, v) # kvs) =
     appendString escapeHTML k @ '':'' @ appendString escapeHTML v @ '',''
       @ encode_pairs escapeHTML kvs"

definition mapEncoder :: "bool \<Rightarrow> (string \<times> string) list \<Rightarrow> string" where
  "mapEncoder escapeHTML m = ''{'' @ encode_pairs escapeHTML (sort_key fst m) @ ''}''"

text \<open>A \<open>*json.Encoder\<close>: where it writes and whether it escapes \<open><\<close>, \<open>>\<close> and \<open>&\<close>.\<close>

record Encoder =
  enc_w :: handle
  enc_escapeHTML :: bool

definition NewEncoder :: "handle \<Rightarrow> Encoder" where
  "NewEncoder f = \<lparr>enc_w = f, enc_escapeHTML = True\<rparr>"

definition SetEscapeHTML :: "Encoder \<Rightarrow> bool \<Rightarrow> Encoder" where
  "SetEscapeHTML enc on = enc\<lparr>enc_escapeHTML := on\<rparr>"

text \<open>\<open>Encode\<close>: the value, a newline, one write.\<close>

definition Encode :: "Encoder \<Rightarrow> (string \<times> string) list \<Rightarrow> world \<Rightarrow> error option \<times> world" where
  "Encode enc m w = File_Write (enc_w enc) (mapEncoder (enc_escapeHTML enc) m @ [newline]) w"

subsection \<open>The logger\<close>

record Logger =
  infoLogger :: "std_Logger option"
  errorLogger :: "std_Logger option"
  debugLogger :: "std_Logger option"
  warningLogger :: "std_Logger option"
  fatalLogger :: "std_Logger option"
  logFile :: "handle option"
  level :: LogLevel
  out :: writer
  filePath :: string
  timeFormat :: string
  withCaller :: bool
  jsonMode :: bool

text \<open>The options of the constructor. An \<open>io.Writer\<close> that may be nil is a
  \<open>writer option\<close>. The options that share their name with a method of the logger carry
  the suffix \<open>_opt\<close>.\<close>

datatype Option =
    WithFilePath string
  | WithWriter "writer option"
  | WithLevel LogLevel
  | WithJSON_opt
  | WithTimeFormat_opt string
  | WithCaller_opt bool
  | WithColors_opt bool

fun apply_Option :: "Option \<Rightarrow> Logger \<times> world \<Rightarrow> Logger \<times> world" where
  "apply_Option (WithFilePath path) (l, w) = (l\<lparr>filePath := path\<rparr>, w)"
| "apply_Option (WithWriter wr) (l, w) =
     (case wr of None \<Rightarrow> (l, w) | Some x \<Rightarrow> (l\<lparr>out := x\<rparr>, w))"
| "apply_Option (WithLevel lv) (l, w) = (l\<lparr>level := lv\<rparr>, w)"
| "apply_Option WithJSON_opt (l, w) = (l\<lparr>jsonMode := True\<rparr>, w)"
| "apply_Option (WithTimeFormat_opt layout) (l, w) =
     (if layout \<noteq> [] then (l\<lparr>timeFormat := layout\<rparr>, w) else (l, w))"
| "apply_Option (WithCaller_opt enable) (l, w) = (l\<lparr>withCaller := enable\<rparr>, w)"
| "apply_Option (WithColors_opt enable) (l, w) = (l, w\<lparr>NoColor := \<not> enable\<rparr>)"

definition NewLogger :: "env \<Rightarrow> Option list \<Rightarrow> world \<Rightarrow> (error + Logger) \<times> world" where
  "NewLogger e opts w =
     (let l0 = \<lparr>infoLogger = None, errorLogger = None, debugLogger = None,
                warningLogger = None, fatalLogger = None, logFile = None,
                level = DEBUG, out = Stdout, filePath = [],
                timeFormat = ''2006-01-02 15:04:05'',
                withCaller = False, jsonMode = False\<rparr>;
          (l1, w1) = fold apply_Option opts (l0, w);
          w2 = (if Getenv e ''FORCE_COLOR'' \<noteq> [] then w1\<lparr>NoColor := False\<rparr>
                else if Getenv e ''NO_COLOR'' \<noteq> [] then w1\<lparr>NoColor := True\<rparr>
                else w1);
          l2 = l1\<lparr>infoLogger := log_New (out l1) (colorString e w2 FgCyan ''[INFO] ''),
                  errorLogger := log_New (out l1) (colorString e w2 FgRed ''[ERROR] ''),
                  debugLogger := log_New (out l1) (colorString e w2 FgGreen ''[DEBUG] ''),
                  warningLogger := log_New (out l1) (colorString e w2 FgYellow ''[WARNING] ''),
                  fatalLogger := log_New (out l1) (colorString e w2 FgMagenta ''[FATAL] '')\<rparr>
      in if filePath l2 \<noteq> []
         then (case OpenFile e (filePath l2) w2 of
                 (Inl err, w3) \<Rightarrow> (Inl err, w3)
               | (Inr f, w3) \<Rightarrow> (Inr (l2\<lparr>logFile := Some f\<rparr>), w3))
         else (Inr l2, w2))"

text \<open>The first \<open>switch\<close> of \<open>log\<close>: the console.\<close>

definition log_console :: "env \<Rightarrow> Logger \<Rightarrow> LogLevel \<Rightarrow> string \<Rightarrow> world \<Rightarrow> world" where
  "log_console e l lv msg w =
     (if lv = DEBUG then Println e (debugLogger l) msg w
      else if lv = INFO then Println e (infoLogger l) msg w
      else if lv = WARNING then Println e (warningLogger l) msg w
      else if lv = ERROR then Println e (errorLogger l) msg w
      else if lv = FATAL then Println e (fatalLogger l) msg w
      else w)"

text \<open>The second \<open>switch\<close>: \<open>levelStr\<close>, empty for a value that is none of the five.\<close>

definition levelStr_of :: "LogLevel \<Rightarrow> string" where
  "levelStr_of lv =
     (if lv = DEBUG then ''[DEBUG] ''
      else if lv = INFO then ''[INFO] ''
      else if lv = WARNING then ''[WARNING] ''
      else if lv = ERROR then ''[ERROR] ''
      else if lv = FATAL then ''[FATAL] ''
      else [])"

text \<open>\<open>caller\<close>: \<open>fmt.Sprintf("%s:%d", filepath.Base(file), line)\<close> when the caller is
  wanted and found, and empty otherwise.\<close>

definition caller_of :: "env \<Rightarrow> Logger \<Rightarrow> string" where
  "caller_of e l =
     (if withCaller l
      then (case Caller e of
              Some (file, line) \<Rightarrow> Base file @ '':'' @ Itoa line
            | None \<Rightarrow> [])
      else [])"

text \<open>The record of the structured mode: the map literal and the assignment of
  \<open>caller\<close>. The slice \<open>levelStr[1 : len(levelStr)-2]\<close> is out of range for a
  \<open>levelStr\<close> of fewer than three bytes, where the program panics.\<close>

definition json_entry :: "string \<Rightarrow> string \<Rightarrow> string \<Rightarrow> string \<Rightarrow> (string \<times> string) list" where
  "json_entry nowStr levelStr msg caller =
     (let entry = [(''time'', nowStr),
                   (''level'', take (length levelStr - 3) (drop 1 levelStr)),
                   (''msg'', msg)]
      in if caller \<noteq> [] then AList.update ''caller'' caller entry else entry)"

definition plain_line :: "string \<Rightarrow> string \<Rightarrow> string \<Rightarrow> string \<Rightarrow> string" where
  "plain_line nowStr levelStr msg caller =
     (let line = nowStr @ '' '' @ levelStr @ msg
      in if caller \<noteq> [] then line @ '' ('' @ caller @ '')'' else line)"

definition log :: "env \<Rightarrow> Logger \<Rightarrow> LogLevel \<Rightarrow> string \<Rightarrow> world \<Rightarrow> world" where
  "log e l lv msg w =
     (if lv < level l then w
      else
        let w1 = log_console e l lv msg w in
        if status w1 \<noteq> Running then w1
        else
          (case logFile l of
             None \<Rightarrow> w1
           | Some f \<Rightarrow>
               let levelStr = levelStr_of lv;
                   caller = caller_of e l;
                   nowStr = Now_Format e (timeFormat l)
               in
                 if jsonMode l then
                   (if length levelStr < 3
                    then w1\<lparr>status := Panicked ''slice bounds out of range''\<rparr>
                    else snd (Encode (SetEscapeHTML (NewEncoder f) False)
                                (json_entry nowStr levelStr msg caller) w1))
                 else snd (Fprintln f (plain_line nowStr levelStr msg caller) w1)))"

text \<open>\<open>fullMsg\<close>: the template itself without operands, \<open>fmt.Sprintf\<close> of it with
  operands; the world counts the call of \<open>fmt.Sprintf\<close>.\<close>

definition fullMsg_of :: "env \<Rightarrow> string \<Rightarrow> gvalue list \<Rightarrow> world \<Rightarrow> string \<times> world" where
  "fullMsg_of e msg v w =
     (if length v > 0 then (Sprintf e msg v, w\<lparr>formatted := formatted w + 1\<rparr>)
      else (msg, w))"

definition Debug :: "env \<Rightarrow> Logger \<Rightarrow> string \<Rightarrow> gvalue list \<Rightarrow> world \<Rightarrow> world" where
  "Debug e l msg v w =
     (if level l > DEBUG then w
      else let (fullMsg, w1) = fullMsg_of e msg v w in log e l DEBUG fullMsg w1)"

definition Info :: "env \<Rightarrow> Logger \<Rightarrow> string \<Rightarrow> gvalue list \<Rightarrow> world \<Rightarrow> world" where
  "Info e l msg v w =
     (if level l > INFO then w
      else let (fullMsg, w1) = fullMsg_of e msg v w in log e l INFO fullMsg w1)"

definition Warning :: "env \<Rightarrow> Logger \<Rightarrow> string \<Rightarrow> gvalue list \<Rightarrow> world \<Rightarrow> world" where
  "Warning e l msg v w =
     (if level l > WARNING then w
      else let (fullMsg, w1) = fullMsg_of e msg v w in log e l WARNING fullMsg w1)"

definition Error :: "env \<Rightarrow> Logger \<Rightarrow> string \<Rightarrow> gvalue list \<Rightarrow> world \<Rightarrow> world" where
  "Error e l msg v w =
     (if level l > ERROR then w
      else let (fullMsg, w1) = fullMsg_of e msg v w in log e l ERROR fullMsg w1)"

text \<open>\<open>os.Exit(1)\<close> is reached when \<open>log\<close> has returned.\<close>

definition Fatal :: "env \<Rightarrow> Logger \<Rightarrow> string \<Rightarrow> gvalue list \<Rightarrow> world \<Rightarrow> world" where
  "Fatal e l msg v w =
     (if level l > FATAL then w
      else
        let (fullMsg, w1) = fullMsg_of e msg v w;
            w2 = log e l FATAL fullMsg w1
        in if status w2 = Running then w2\<lparr>status := Exited 1\<rparr> else w2)"

definition Close :: "env \<Rightarrow> Logger \<Rightarrow> world \<Rightarrow> error option \<times> world" where
  "Close e l w = (case logFile l of None \<Rightarrow> (None, w) | Some f \<Rightarrow> File_Close e f w)"

definition SetLevel :: "Logger \<Rightarrow> LogLevel \<Rightarrow> Logger" where
  "SetLevel l lv = l\<lparr>level := lv\<rparr>"

definition WithColors :: "bool \<Rightarrow> world \<Rightarrow> world" where
  "WithColors enable w = w\<lparr>NoColor := \<not> enable\<rparr>"

definition WithTimeFormat :: "Logger \<Rightarrow> string \<Rightarrow> Logger" where
  "WithTimeFormat l layout = (if layout \<noteq> [] then l\<lparr>timeFormat := layout\<rparr> else l)"

definition WithCaller :: "Logger \<Rightarrow> bool \<Rightarrow> Logger" where
  "WithCaller l enable = l\<lparr>withCaller := enable\<rparr>"

definition WithJSON :: "Logger \<Rightarrow> Logger" where
  "WithJSON l = l\<lparr>jsonMode := True\<rparr>"

definition DisableFile :: "env \<Rightarrow> Logger \<Rightarrow> world \<Rightarrow> Logger \<times> world" where
  "DisableFile e l w =
     (case logFile l of
        Some f \<Rightarrow> (l\<lparr>logFile := None\<rparr>, snd (File_Close e f w))
      | None \<Rightarrow> (l, w))"

definition EnableFile :: "env \<Rightarrow> Logger \<Rightarrow> string \<Rightarrow> world \<Rightarrow> error option \<times> Logger \<times> world" where
  "EnableFile e l path w =
     (let w1 = (case logFile l of Some f \<Rightarrow> snd (File_Close e f w) | None \<Rightarrow> w)
      in case OpenFile e path w1 of
           (Inl err, w2) \<Rightarrow> (Some err, l, w2)
         | (Inr f, w2) \<Rightarrow> (None, l\<lparr>logFile := Some f\<rparr>, w2))"

subsection \<open>Reading a structured record back\<close>

text \<open>
  A reader for the lines of the structured mode, to say what "parses back" means: a
  line holds one JSON object whose members are strings, without white space, and ends
  with a newline. The reader is strict: it refuses a raw control byte, a raw quote or an
  unknown escape inside a string, and an escape \<open>\u\<close> of a surrogate half. It returns the
  members in the order of the line, with the strings unescaped. None of it comes from
  the logger.
\<close>

definition hexval :: "char \<Rightarrow> nat option" where
  "hexval c =
     (let n = of_char c :: nat in
      if 48 \<le> n \<and> n \<le> 57 then Some (n - 48)
      else if 97 \<le> n \<and> n \<le> 102 then Some (n - 87)
      else if 65 \<le> n \<and> n \<le> 70 then Some (n - 55)
      else None)"

definition getu4 :: "char \<Rightarrow> char \<Rightarrow> char \<Rightarrow> char \<Rightarrow> nat option" where
  "getu4 a b c d =
     (case hexval a of None \<Rightarrow> None | Some p \<Rightarrow>
      case hexval b of None \<Rightarrow> None | Some q \<Rightarrow>
      case hexval c of None \<Rightarrow> None | Some r \<Rightarrow>
      case hexval d of None \<Rightarrow> None | Some s \<Rightarrow>
        Some (((p * 16 + q) * 16 + r) * 16 + s))"

text \<open>The UTF-8 encoding of a code point of the basic plane.\<close>

definition rune_bytes :: "nat \<Rightarrow> string" where
  "rune_bytes r =
     (if r < 0x80 then [char_of r]
      else if r < 0x800 then [char_of (0xC0 + r div 64), char_of (0x80 + r mod 64)]
      else [char_of (0xE0 + r div 4096), char_of (0x80 + (r div 64) mod 64),
            char_of (0x80 + r mod 64)])"

definition unescape :: "char \<Rightarrow> char option" where
  "unescape c =
     (if c = quote \<or> c = bslash \<or> c = CHR ''/'' then Some c
      else if c = CHR ''b'' then Some (CHR 0x08)
      else if c = CHR ''f'' then Some (CHR 0x0C)
      else if c = CHR ''n'' then Some (CHR 0x0A)
      else if c = CHR ''r'' then Some (CHR 0x0D)
      else if c = CHR ''t'' then Some (CHR 0x09)
      else None)"

definition push :: "string \<Rightarrow> (string \<times> string) option \<Rightarrow> (string \<times> string) option" where
  "push b r = (case r of None \<Rightarrow> None | Some (d, rest) \<Rightarrow> Some (b @ d, rest))"

text \<open>The inside of a string, after the opening quote: the string unescaped and what
  follows the closing quote.\<close>

fun read_chars :: "string \<Rightarrow> (string \<times> string) option" where
  "read_chars [] = None"
| "read_chars (c # cs) =
     (if c = quote then Some ([], cs)
      else if c = bslash then
        (case cs of
           [] \<Rightarrow> None
         | x # cs1 \<Rightarrow>
             if x = CHR ''u'' then
               (case cs1 of
                  h1 # h2 # h3 # h4 # cs2 \<Rightarrow>
                    (case getu4 h1 h2 h3 h4 of
                       None \<Rightarrow> None
                     | Some r \<Rightarrow>
                         if 0xD800 \<le> r \<and> r < 0xE000 then None
                         else push (rune_bytes r) (read_chars cs2))
                | _ \<Rightarrow> None)
             else
               (case unescape x of
                  None \<Rightarrow> None
                | Some b \<Rightarrow> push [b] (read_chars cs1)))
      else if (of_char c :: nat) < 0x20 then None
      else push [c] (read_chars cs))"

definition read_string :: "string \<Rightarrow> (string \<times> string) option" where
  "read_string s =
     (case s of [] \<Rightarrow> None | c # cs \<Rightarrow> if c = quote then read_chars cs else None)"

text \<open>The members of an object, after the opening brace, up to and with the closing
  brace. The first argument bounds the number of members read; a line has fewer members
  than bytes.\<close>

fun read_members :: "nat \<Rightarrow> string \<Rightarrow> ((string \<times> string) list \<times> string) option" where
  "read_members 0 s = None"
| "read_members (Suc n) s =
     (case read_string s of
        None \<Rightarrow> None
      | Some (k, s1) \<Rightarrow>
          (case s1 of
             [] \<Rightarrow> None
           | c # s2 \<Rightarrow>
               if c \<noteq> CHR '':'' then None
               else
                 (case read_string s2 of
                    None \<Rightarrow> None
                  | Some (v, s3) \<Rightarrow>
                      (case s3 of
                         [] \<Rightarrow> None
                       | d # s4 \<Rightarrow>
                           if d = CHR ''}'' then Some ([(k, v)], s4)
                           else if d = CHR '','' then
                             (case read_members n s4 of
                                None \<Rightarrow> None
                              | Some (ms, rest) \<Rightarrow> Some ((k, v) # ms, rest))
                           else None))))"

definition read_object :: "string \<Rightarrow> ((string \<times> string) list \<times> string) option" where
  "read_object s =
     (case s of
        [] \<Rightarrow> None
      | c # s1 \<Rightarrow>
          if c \<noteq> CHR ''{'' then None
          else (case s1 of
                  [] \<Rightarrow> None
                | d # s2 \<Rightarrow> if d = CHR ''}'' then Some ([], s2)
                            else read_members (length s1) s1))"

definition read_record :: "string \<Rightarrow> (string \<times> string) list option" where
  "read_record line =
     (case read_object line of
        None \<Rightarrow> None
      | Some (ms, rest) \<Rightarrow> if rest = [newline] then Some ms else None)"

text \<open>What the encoder makes of a string that is not UTF-8: each byte that starts no
  well-formed encoding stands as the replacement character \<open>U+FFFD\<close>.\<close>

function utf8_coerce :: "string \<Rightarrow> string" where
  "utf8_coerce [] = []"
| "utf8_coerce (b # bs) =
     (if (of_char b :: nat) < 0x80 then b # utf8_coerce bs
      else
        let c = fst (DecodeRuneInString (take 4 (b # bs)));
            size = snd (DecodeRuneInString (take 4 (b # bs)))
        in
          if c = RuneError \<and> size = 1
            then [CHR 0xEF, CHR 0xBF, CHR 0xBD] @ utf8_coerce (drop size (b # bs))
          else take size (b # bs) @ utf8_coerce (drop size (b # bs)))"
  by pat_completeness auto
termination
proof (relation "measure length", goal_cases)
  have width: "0 < snd (DecodeRuneInString (take 4 (b # bs)))" for b bs
    by (simp add: DecodeRuneInString_def Let_def)
  {
    case (3 b bs x xa)
    then show ?case using width [of b bs] by simp
  next
    case (4 b bs x xa)
    then show ?case using width [of b bs] by simp
  }
qed simp_all

subsection \<open>Clients\<close>

text \<open>The method that logs at a severity, and the standard logger it prints with.\<close>

definition leveled :: "LogLevel \<Rightarrow> env \<Rightarrow> Logger \<Rightarrow> string \<Rightarrow> gvalue list \<Rightarrow> world \<Rightarrow> world" where
  "leveled S =
     (if S = DEBUG then Debug
      else if S = INFO then Info
      else if S = WARNING then Warning
      else if S = ERROR then Error
      else Fatal)"

definition console_of :: "Logger \<Rightarrow> LogLevel \<Rightarrow> std_Logger option" where
  "console_of l S =
     (if S = DEBUG then debugLogger l
      else if S = INFO then infoLogger l
      else if S = WARNING then warningLogger l
      else if S = ERROR then errorLogger l
      else fatalLogger l)"

definition severities :: "LogLevel set" where
  "severities = {DEBUG, INFO, WARNING, ERROR, FATAL}"

definition level_name :: "LogLevel \<Rightarrow> string" where
  "level_name S =
     (if S = DEBUG then ''DEBUG''
      else if S = INFO then ''INFO''
      else if S = WARNING then ''WARNING''
      else if S = ERROR then ''ERROR''
      else ''FATAL'')"

text \<open>The message as the specification words it: interpolated when there is an
  operand, and the template itself when there is none.\<close>

definition message :: "env \<Rightarrow> string \<Rightarrow> gvalue list \<Rightarrow> string" where
  "message e msg v = (if v = [] then msg else Sprintf e msg v)"

text \<open>The handles that are open. The logger owns the files: a handle that is open is
  the one in \<open>logFile\<close>, and the handle in \<open>logFile\<close> is one the system has given out.\<close>

definition open_handles :: "world \<Rightarrow> handle list" where
  "open_handles w = filter (is_open w) [0..<length (fds w)]"

definition owns :: "Logger \<Rightarrow> world \<Rightarrow> bool" where
  "owns l w \<longleftrightarrow>
     set (open_handles w) \<subseteq> set_option (logFile l)
     \<and> (case logFile l of None \<Rightarrow> True | Some f \<Rightarrow> f < length (fds w))"

text \<open>The world between the two steps of \<open>EnableFile\<close>: the old handle is closed.\<close>

definition closed_first :: "env \<Rightarrow> Logger \<Rightarrow> world \<Rightarrow> world" where
  "closed_first e l w = (case logFile l of Some f \<Rightarrow> snd (File_Close e f w) | None \<Rightarrow> w)"

text \<open>The logger has a file sink that is open.\<close>

definition sink_open :: "Logger \<Rightarrow> world \<Rightarrow> bool" where
  "sink_open l w = (case logFile l of None \<Rightarrow> False | Some f \<Rightarrow> is_open w f)"

text \<open>What one passing call hands to the console destination and appends to the file:
  the two \<open>Write\<close>s of \<open>log\<close>, named.\<close>

definition console_chunk :: "env \<Rightarrow> std_Logger \<Rightarrow> string \<Rightarrow> writer \<times> string" where
  "console_chunk e g m = (lg_out g, lg_prefix g @ clock e @ '' '' @ m @ [newline])"

definition file_record :: "env \<Rightarrow> Logger \<Rightarrow> LogLevel \<Rightarrow> string \<Rightarrow> string" where
  "file_record e l S m =
     (if jsonMode l
      then mapEncoder False
             (json_entry (Now_Format e (timeFormat l)) (levelStr_of S) m (caller_of e l))
             @ [newline]
      else plain_line (Now_Format e (timeFormat l)) (levelStr_of S) m (caller_of e l)
             @ [newline])"

text \<open>The number of lines a text holds, each line ended by its newline.\<close>

definition lines_in :: "string \<Rightarrow> nat" where
  "lines_in s = length (filter (\<lambda>c. c = newline) s)"

text \<open>The disk after the bytes \<open>b\<close> went to the end of the file behind handle \<open>f\<close>.\<close>

definition appended :: "world \<Rightarrow> handle \<Rightarrow> string \<Rightarrow> string \<rightharpoonup> string" where
  "appended w f b = (disk w)(fd_path w f \<mapsto> content w (fd_path w f) @ b)"

text \<open>The end of \<open>Fatal\<close>, and the count of one more interpolation.\<close>

definition after_log :: "LogLevel \<Rightarrow> world \<Rightarrow> world" where
  "after_log S w2 = (if S = FATAL \<and> status w2 = Running then w2\<lparr>status := Exited 1\<rparr> else w2)"

definition counted :: "gvalue list \<Rightarrow> world \<Rightarrow> world" where
  "counted v w = w\<lparr>formatted := formatted w + (if v = [] then 0 else 1)\<rparr>"

text \<open>A byte that JSON lets stand for itself in a string and that is ASCII: anything
  from the space on but the quote and the backslash; \<open><\<close>, \<open>>\<close> and \<open>&\<close> are among them.\<close>

definition printable :: "char \<Rightarrow> bool" where
  "printable c \<longleftrightarrow> safeSet c \<and> (of_char c :: nat) < 0x80"

text \<open>A string between two quotes.\<close>

definition quoted :: "string \<Rightarrow> string" where
  "quoted s = quote # s @ [quote]"

definition coerce_pair :: "string \<times> string \<Rightarrow> string \<times> string" where
  "coerce_pair kv = (utf8_coerce (fst kv), utf8_coerce (snd kv))"

text \<open>What a mutator of the configuration has to leave alone: the file sink, the
  console destination and its five loggers, and the path.\<close>

definition kept :: "Logger \<Rightarrow> Logger \<Rightarrow> bool" where
  "kept l m \<longleftrightarrow>
     logFile m = logFile l \<and> out m = out l \<and> filePath m = filePath l
     \<and> infoLogger m = infoLogger l \<and> errorLogger m = errorLogger l
     \<and> debugLogger m = debugLogger l \<and> warningLogger m = warningLogger l
     \<and> fatalLogger m = fatalLogger l"

text \<open>The calls a client can make on a logger, and a client as a list of calls, each
  with what the surroundings answer while it runs. A client makes no further call once
  the process has exited or panicked.\<close>

datatype call =
    Call_Debug string "gvalue list"
  | Call_Info string "gvalue list"
  | Call_Warning string "gvalue list"
  | Call_Error string "gvalue list"
  | Call_Fatal string "gvalue list"
  | Call_Close
  | Call_SetLevel LogLevel
  | Call_WithColors bool
  | Call_WithTimeFormat string
  | Call_WithCaller bool
  | Call_WithJSON
  | Call_DisableFile
  | Call_EnableFile string

fun step :: "env \<Rightarrow> call \<Rightarrow> Logger \<times> world \<Rightarrow> Logger \<times> world" where
  "step e (Call_Debug msg v) (l, w) = (l, Debug e l msg v w)"
| "step e (Call_Info msg v) (l, w) = (l, Info e l msg v w)"
| "step e (Call_Warning msg v) (l, w) = (l, Warning e l msg v w)"
| "step e (Call_Error msg v) (l, w) = (l, Error e l msg v w)"
| "step e (Call_Fatal msg v) (l, w) = (l, Fatal e l msg v w)"
| "step e Call_Close (l, w) = (l, snd (Close e l w))"
| "step e (Call_SetLevel lv) (l, w) = (SetLevel l lv, w)"
| "step e (Call_WithColors enable) (l, w) = (l, WithColors enable w)"
| "step e (Call_WithTimeFormat layout) (l, w) = (WithTimeFormat l layout, w)"
| "step e (Call_WithCaller enable) (l, w) = (WithCaller l enable, w)"
| "step e Call_WithJSON (l, w) = (WithJSON l, w)"
| "step e Call_DisableFile (l, w) = DisableFile e l w"
| "step e (Call_EnableFile path) (l, w) = snd (EnableFile e l path w)"

fun run :: "(env \<times> call) list \<Rightarrow> Logger \<times> world \<Rightarrow> Logger \<times> world" where
  "run [] (l, w) = (l, w)"
| "run ((e, c) # cs) (l, w) =
     (if status w \<noteq> Running then (l, w) else run cs (step e c (l, w)))"

subsection \<open>A concrete setting\<close>

text \<open>Surroundings to run the definitions in: a \<open>Sprintf\<close> that knows the verbs \<open>%s\<close>
  and \<open>%d\<close>, a clock that stands still, a caller, and a file system in which the
  directory \<open>/missing\<close> does not exist.\<close>

fun show_gvalue :: "gvalue \<Rightarrow> string" where
  "show_gvalue (GString s) = s"
| "show_gvalue (GInt i) = Itoa i"
| "show_gvalue (GBool b) = (if b then ''true'' else ''false'')"

fun ex_Sprintf :: "string \<Rightarrow> gvalue list \<Rightarrow> string" where
  "ex_Sprintf [] v = []"
| "ex_Sprintf [c] v = [c]"
| "ex_Sprintf (c # d # t) v =
     (if c = CHR ''%'' \<and> (d = CHR ''s'' \<or> d = CHR ''d'')
      then (case v of
              [] \<Rightarrow> ''%!'' @ [d] @ ''(MISSING)'' @ ex_Sprintf t v
            | a # as \<Rightarrow> show_gvalue a @ ex_Sprintf t as)
      else c # ex_Sprintf (d # t) v)"

definition ex_env :: env where
  "ex_env =
     \<lparr>Sprintf = ex_Sprintf,
      paint = (\<lambda>a s. ''<'' @ s @ ''>''),
      Getenv = (\<lambda>name. []),
      clock = ''12:00:00'',
      Now_Format = (\<lambda>layout. ''2025-11-20 12:00:00''),
      Caller = Some (''/src/app/main.go'', 42),
      open_errno = (\<lambda>path. if take 9 path = ''/missing/''
                            then Some ''no such file or directory'' else None),
      close_errno = None\<rparr>"

definition ex_world :: world where
  "ex_world =
     \<lparr>written = [], fds = [], disk = Map.empty, NoColor = True, formatted = 0,
      status = Running\<rparr>"

text \<open>The logger \<open>NewLogger(WithFilePath("app.log"), WithLevel(INFO))\<close> builds there,
  and the world it leaves.\<close>

definition ex_logger :: Logger where
  "ex_logger =
     \<lparr>infoLogger = Some \<lparr>lg_out = Stdout, lg_prefix = ''[INFO] ''\<rparr>,
      errorLogger = Some \<lparr>lg_out = Stdout, lg_prefix = ''[ERROR] ''\<rparr>,
      debugLogger = Some \<lparr>lg_out = Stdout, lg_prefix = ''[DEBUG] ''\<rparr>,
      warningLogger = Some \<lparr>lg_out = Stdout, lg_prefix = ''[WARNING] ''\<rparr>,
      fatalLogger = Some \<lparr>lg_out = Stdout, lg_prefix = ''[FATAL] ''\<rparr>,
      logFile = Some 0, level = INFO, out = Stdout, filePath = ''app.log'',
      timeFormat = ''2006-01-02 15:04:05'', withCaller = False, jsonMode = False\<rparr>"

definition ex_started :: world where
  "ex_started =
     \<lparr>written = [], fds = [(''app.log'', True)], disk = [''app.log'' \<mapsto> []],
      NoColor = True, formatted = 0, status = Running\<rparr>"

section \<open>Properties\<close>

lemma ex_NewLogger:
  "NewLogger ex_env [WithFilePath ''app.log'', WithLevel INFO] ex_world
     = (Inr ex_logger, ex_started)"
  by (simp add: NewLogger_def ex_env_def ex_world_def ex_logger_def ex_started_def
      OpenFile_def log_New_def colorString_def content_def level_defs Stdout_def)

subsection \<open>The encoder and the reader\<close>

lemma hex_hexval: "k < 16 \<Longrightarrow> hexval (hex k) = Some k"
proof -
  assume "k < 16"
  then have "k \<in> {0,1,2,3,4,5,6,7,8,9,10,11,12,13,14,15}" by simp arith
  then show ?thesis by (auto simp: hex_def hexval_def)
qed

lemma hex_not_special: "k < 16 \<Longrightarrow> hex k \<noteq> newline \<and> 0x20 \<le> (of_char (hex k) :: nat)"
proof -
  assume "k < 16"
  then have "k \<in> {0,1,2,3,4,5,6,7,8,9,10,11,12,13,14,15}" by simp arith
  then show ?thesis by (auto simp: hex_def newline_def)
qed

lemma push_push: "push a (push b r) = push (a @ b) r"
  by (simp add: push_def split: option.split)

lemma read_chars_high:
  "\<forall>c \<in> set xs. (0x80::nat) \<le> of_char c \<Longrightarrow> read_chars (xs @ rest) = push xs (read_chars rest)"
proof (induction xs)
  case Nil
  show ?case by (simp add: push_def split: option.split)
next
  case (Cons c xs)
  then have c: "(0x80::nat) \<le> of_char c" by simp
  have "c \<noteq> quote" "c \<noteq> bslash" using c by (auto simp: quote_def bslash_def)
  moreover have "\<not> (of_char c :: nat) < 0x20" using c by simp
  ultimately show ?case using Cons by (simp add: push_push)
qed

lemma mod_shift: "a * m \<le> (s::nat) \<Longrightarrow> s < a * m + m \<Longrightarrow> s mod m = s - a * m"
proof -
  assume a: "a * m \<le> s" and b: "s < a * m + m"
  obtain k where k: "s = k + a * m" using a by (metis le_add_diff_inverse2)
  with b have "k < m" by simp
  then show ?thesis using k by simp
qed

lemma three_bytes:
  fixes s0 s1 s2 :: nat
  assumes "224 \<le> s0" "s0 < 240" "128 \<le> s1" "s1 < 192" "128 \<le> s2" "s2 < 192"
    and "(s0 mod 16) * 4096 + (s1 mod 64) * 64 + s2 mod 64 = c" and "c = 8232 \<or> c = 8233"
  shows "s0 = 226 \<and> s1 = 128 \<and> s2 = 128 + c mod 64"
proof -
  define k0 where "k0 = s0 - 224"
  define k1 where "k1 = s1 - 128"
  define k2 where "k2 = s2 - 128"
  have s: "s0 = 224 + k0" "s1 = 128 + k1" "s2 = 128 + k2"
    using assms(1,3,5) by (simp_all add: k0_def k1_def k2_def)
  have b: "k0 < 16" "k1 < 64" "k2 < 64" using assms(2,4,6) s by simp_all
  have m: "s0 mod 16 = k0" "s1 mod 64 = k1" "s2 mod 64 = k2"
    using mod_shift [of 14 16 s0] mod_shift [of 2 64 s1] mod_shift [of 2 64 s2] assms(1-6)
    by (simp_all add: k0_def k1_def k2_def)
  have eq: "k0 * 4096 + k1 * 64 + k2 = c" using assms(7) by (simp add: m)
  have c: "8232 \<le> c" "c \<le> 8233" using assms(8) by auto
  have "k0 = 2" using eq b c by linarith
  then have eq1: "k1 * 64 + k2 + 8192 = c" using eq by simp
  have "k1 = 0" using eq1 b c by linarith
  then have "k2 + 8192 = c" using eq1 by simp
  then have "c mod 64 = k2" using assms(8) by auto
  then show ?thesis using s \<open>k0 = 2\<close> \<open>k1 = 0\<close> by simp
qed

lemma two_bytes_small:
  fixes s0 s1 :: nat
  shows "(s0 mod 32) * 64 + s1 mod 64 < 2048"
proof -
  have "s0 mod 32 < 32" "s1 mod 64 < 64" by simp_all
  then show ?thesis by linarith
qed

lemma four_bytes_large:
  fixes s0 s1 s2 s3 :: nat
  assumes "240 \<le> s0" "s0 \<le> 244" "(if s0 = 240 then 144 else 128) \<le> s1" "s1 < 192"
  shows "65536 \<le> (s0 mod 8) * 262144 + (s1 mod 64) * 4096 + (s2 mod 64) * 64 + s3 mod 64"
proof -
  have a: "s0 mod 8 = s0 - 240" using mod_shift [of 30 8 s0] assms(1,2) by simp
  have s1: "128 \<le> s1" using assms(3) by (simp split: if_splits)
  have b: "s1 mod 64 = s1 - 128" using mod_shift [of 2 64 s1] s1 assms(4) by simp
  show ?thesis
  proof (cases "s0 = 240")
    case True
    then have "16 \<le> s1 mod 64" using assms(3) b by simp
    then have "65536 \<le> (s1 mod 64) * 4096" by linarith
    then show ?thesis by linarith
  next
    case False
    then have "1 \<le> s0 mod 8" using assms(1) a by simp
    then have "262144 \<le> (s0 mod 8) * 262144" by linarith
    then show ?thesis by linarith
  qed
qed


lemma four_bytes_large0:
  fixes s1 x y :: nat
  assumes "\<not> s1 < 144" "\<not> 191 < s1"
  shows "65536 \<le> s1 mod 64 * 4096 + x + y"
proof -
  have "s1 mod 64 = s1 - 128" using mod_shift [of 2 64 s1] assms by simp
  then have "16 \<le> s1 mod 64" using assms by simp
  then have "65536 \<le> s1 mod 64 * 4096" by linarith
  then show ?thesis by linarith
qed

lemma list4_cases:
  obtains "bs = []" | b1 where "bs = [b1]" | b1 b2 where "bs = [b1, b2]"
  | b1 b2 b3 rest where "bs = b1 # b2 # b3 # rest"
  by (metis list.exhaust)

lemma Decode_shape:
  assumes "(0x80::nat) \<le> of_char b"
    and "DecodeRuneInString (take 4 (b # bs)) = (c, n)"
  shows "(n = 1 \<and> c = RuneError) \<or> (n = 2 \<and> c < 2048) \<or> (n = 4 \<and> 65536 \<le> c)
         \<or> (n = 3 \<and> (\<exists>b1 b2 rest. bs = b1 # b2 # rest
                \<and> 224 \<le> (of_char b :: nat) \<and> (of_char b :: nat) < 240
                \<and> 128 \<le> (of_char b1 :: nat) \<and> (of_char b1 :: nat) < 192
                \<and> 128 \<le> (of_char b2 :: nat) \<and> (of_char b2 :: nat) < 192
                \<and> c = (of_char b mod 16) * 4096 + (of_char b1 mod 64) * 64
                        + of_char b2 mod 64))"
proof (cases bs rule: list4_cases)
  case 1
  with assms show ?thesis
    by (auto simp: DecodeRuneInString_def Let_def split: if_splits)
next
  case (2 b1)
  with assms show ?thesis
    by (auto simp: DecodeRuneInString_def Let_def two_bytes_small split: if_splits)
next
  case (3 b1 b2)
  with assms show ?thesis
    by (auto simp: DecodeRuneInString_def Let_def two_bytes_small split: if_splits)
next
  case (4 b1 b2 b3 rest)
  with assms show ?thesis
    by (auto simp: DecodeRuneInString_def Let_def two_bytes_small split: if_splits
        intro!: four_bytes_large four_bytes_large0)
qed


lemma char_of_of_char_nat: "of_char c = (k::nat) \<Longrightarrow> c = char_of k"
  by auto

lemma Decode_line_sep:
  assumes hi: "(0x80::nat) \<le> of_char b"
    and d: "DecodeRuneInString (take 4 (b # bs)) = (c, n)"
    and c: "c = 0x2028 \<or> c = 0x2029"
  shows "take n (b # bs) = rune_bytes c"
proof -
  from Decode_shape [OF hi d] c
  obtain b1 b2 rest where n: "n = 3" and bs: "bs = b1 # b2 # rest"
    and r: "224 \<le> (of_char b :: nat)" "(of_char b :: nat) < 240"
      "128 \<le> (of_char b1 :: nat)" "(of_char b1 :: nat) < 192"
      "128 \<le> (of_char b2 :: nat)" "(of_char b2 :: nat) < 192"
    and v: "(of_char b mod 16) * 4096 + (of_char b1 mod 64) * 64 + of_char b2 mod 64 = c"
    by (auto simp: RuneError_def)
  from three_bytes [OF r v] c
  have "of_char b = (226::nat)" "of_char b1 = (128::nat)" "of_char b2 = (128 + c mod 64 :: nat)"
    by auto
  then have "b = char_of (226::nat)" "b1 = char_of (128::nat)" "b2 = char_of (128 + c mod 64)"
    by (auto dest: char_of_of_char_nat)
  then show ?thesis using c n bs by (auto simp: rune_bytes_def)
qed

lemma Decode_high_bytes:
  assumes "(0x80::nat) \<le> of_char b"
    and "DecodeRuneInString (take 4 (b # bs)) = (c, n)"
    and "\<not> (c = RuneError \<and> n = 1)"
  shows "\<forall>x \<in> set (take n (b # bs)). (0x80::nat) \<le> of_char x"
proof (cases bs rule: list4_cases)
  case 1
  with assms show ?thesis
    by (auto simp: DecodeRuneInString_def Let_def split: if_splits)
next
  case (2 b1)
  with assms show ?thesis
    by (auto simp: DecodeRuneInString_def Let_def split: if_splits)
next
  case (3 b1 b2)
  with assms show ?thesis
    by (auto simp: DecodeRuneInString_def Let_def split: if_splits)
next
  case (4 b1 b2 b3 rest)
  with assms show ?thesis
    by (auto simp: DecodeRuneInString_def Let_def split: if_splits)
qed


lemma read_chars_safe:
  "safeSet b \<Longrightarrow> read_chars (b # t) = push [b] (read_chars t)"
  by (simp add: safeSet_def)

lemma getu4_byte:
  assumes "k < 128"
  shows "getu4 (CHR ''0'') (CHR ''0'') (hex (k div 16)) (hex (k mod 16)) = Some k"
proof -
  have "k div 16 < 16" using assms by simp
  then have a: "hexval (hex (k div 16)) = Some (k div 16)" by (rule hex_hexval)
  have b: "hexval (hex (k mod 16)) = Some (k mod 16)" by (rule hex_hexval) simp
  have z: "hexval (CHR ''0'') = Some 0" by (simp add: hexval_def)
  show ?thesis by (simp add: getu4_def a b z)
qed

lemma read_chars_u_byte:
  assumes "(of_char b :: nat) < 128"
  shows "read_chars (bslash # CHR ''u'' # CHR ''0'' # CHR ''0'' # hex (of_char b div 16)
                       # hex (of_char b mod 16) # t) = push [b] (read_chars t)"
proof -
  have "rune_bytes (of_char b) = [b]" using assms by (simp add: rune_bytes_def)
  then show ?thesis using assms getu4_byte [OF assms]
    by (simp add: quote_def bslash_def)
qed

lemma read_chars_escape:
  assumes "(of_char b :: nat) < 128"
  shows "read_chars (escape_byte b @ t) = push [b] (read_chars t)"
proof -
  consider "b = bslash \<or> b = quote" | "b = CHR 0x08" | "b = CHR 0x0C" | "b = CHR 0x0A"
    | "b = CHR 0x0D" | "b = CHR 0x09"
    | "\<not> (b = bslash \<or> b = quote)" "b \<noteq> CHR 0x08" "b \<noteq> CHR 0x0C" "b \<noteq> CHR 0x0A"
      "b \<noteq> CHR 0x0D" "b \<noteq> CHR 0x09"
    by blast
  then show ?thesis
  proof cases
    case 1
    then show ?thesis by (auto simp: escape_byte_def unescape_def quote_def bslash_def)
  next
    case 2
    then show ?thesis by (simp add: escape_byte_def unescape_def quote_def bslash_def)
  next
    case 3
    then show ?thesis by (simp add: escape_byte_def unescape_def quote_def bslash_def)
  next
    case 4
    then show ?thesis by (simp add: escape_byte_def unescape_def quote_def bslash_def)
  next
    case 5
    then show ?thesis by (simp add: escape_byte_def unescape_def quote_def bslash_def)
  next
    case 6
    then show ?thesis by (simp add: escape_byte_def unescape_def quote_def bslash_def)
  next
    case 7
    then have "escape_byte b = [bslash, CHR ''u'', CHR ''0'', CHR ''0'',
                 hex (of_char b div 16), hex (of_char b mod 16)]"
      by (simp add: escape_byte_def)
    then show ?thesis using read_chars_u_byte [OF assms] by simp
  qed
qed

lemma read_chars_fffd:
  "read_chars (bslash # CHR ''u'' # CHR ''f'' # CHR ''f'' # CHR ''f'' # CHR ''d'' # t)
     = push [CHR 0xEF, CHR 0xBF, CHR 0xBD] (read_chars t)"
proof -
  have "getu4 (CHR ''f'') (CHR ''f'') (CHR ''f'') (CHR ''d'') = Some 0xFFFD"
    by (simp add: getu4_def hexval_def)
  moreover have "rune_bytes 0xFFFD = [CHR 0xEF, CHR 0xBF, CHR 0xBD]"
    by (simp add: rune_bytes_def char_of_def bit_Suc_0_iff)
  ultimately show ?thesis by (simp add: quote_def bslash_def)
qed

lemma read_chars_sep:
  assumes "c = 0x2028 \<or> c = 0x2029"
  shows "read_chars (bslash # CHR ''u'' # CHR ''2'' # CHR ''0'' # CHR ''2'' # hex (c mod 16) # t)
     = push (rune_bytes c) (read_chars t)"
proof -
  have "getu4 (CHR ''2'') (CHR ''0'') (CHR ''2'') (hex (c mod 16)) = Some c"
    using assms by (auto simp: getu4_def hexval_def hex_def)
  then show ?thesis using assms by (auto simp: quote_def bslash_def)
qed


lemma push_Some: "push a (Some (d, r)) = Some (a @ d, r)"
  by (simp add: push_def)

lemma htmlSafe_safe: "htmlSafeSet b \<or> \<not> esc \<and> safeSet b \<Longrightarrow> safeSet b"
  by (auto simp: htmlSafeSet_def)

lemma read_chars_appendString_from:
  "read_chars (appendString_from esc s @ quote # rest) = Some (utf8_coerce s, rest)"
proof (induction esc s rule: appendString_from.induct)
  case (1 esc)
  show ?case by simp
next
  case (2 esc b bs)
  obtain c n where d: "DecodeRuneInString (take 4 (b # bs)) = (c, n)"
    by (cases "DecodeRuneInString (take 4 (b # bs))")
  let ?tl = "drop n (b # bs)"
  show ?case
  proof (cases "(of_char b :: nat) < 0x80")
    case True
    show ?thesis
    proof (cases "htmlSafeSet b \<or> (\<not> esc \<and> safeSet b)")
      case safe: True
      with True 2(1) show ?thesis
        by (simp add: read_chars_safe [OF htmlSafe_safe [OF safe]] push_Some
            del: read_chars.simps)
    next
      case False
      with True 2(2) show ?thesis
        by (auto simp: read_chars_escape push_Some simp del: read_chars.simps)
    qed
  next
    case False
    then have hi: "(0x80::nat) \<le> of_char b" by simp
    consider (bad) "c = RuneError \<and> n = 1"
      | (sep) "\<not> (c = RuneError \<and> n = 1)" "c = 0x2028 \<or> c = 0x2029"
      | (rune) "\<not> (c = RuneError \<and> n = 1)" "\<not> (c = 0x2028 \<or> c = 0x2029)"
      by blast
    then show ?thesis
    proof cases
      case bad
      have A: "appendString_from esc (b # bs) =
                 [bslash, CHR ''u'', CHR ''f'', CHR ''f'', CHR ''f'', CHR ''d'']
                   @ appendString_from esc ?tl"
        using False d bad by auto
      have U: "utf8_coerce (b # bs) = [CHR 0xEF, CHR 0xBF, CHR 0xBD] @ utf8_coerce ?tl"
        using False d bad by auto
      have IH: "read_chars (appendString_from esc ?tl @ quote # rest)
                  = Some (utf8_coerce ?tl, rest)"
        using 2(3) [OF False refl refl] d bad by simp
      show ?thesis unfolding A U using IH
        by (simp add: read_chars_fffd push_Some del: read_chars.simps)
    next
      case sep
      have t: "take n (b # bs) = rune_bytes c" by (rule Decode_line_sep [OF hi d sep(2)])
      have A: "appendString_from esc (b # bs) =
                 [bslash, CHR ''u'', CHR ''2'', CHR ''0'', CHR ''2'', hex (c mod 16)]
                   @ appendString_from esc ?tl"
        using False d sep by auto
      have U: "utf8_coerce (b # bs) = take n (b # bs) @ utf8_coerce ?tl"
        using False d sep by auto
      have IH: "read_chars (appendString_from esc ?tl @ quote # rest)
                  = Some (utf8_coerce ?tl, rest)"
        using 2(4) [OF False refl refl] d sep by simp
      show ?thesis unfolding A U t using IH
        by (simp add: read_chars_sep [OF sep(2)] push_Some del: read_chars.simps)
    next
      case rune
      have h: "\<forall>x \<in> set (take n (b # bs)). (0x80::nat) \<le> of_char x"
        by (rule Decode_high_bytes [OF hi d rune(1)])
      have A: "appendString_from esc (b # bs) = take n (b # bs) @ appendString_from esc ?tl"
        using False d rune by auto
      have U: "utf8_coerce (b # bs) = take n (b # bs) @ utf8_coerce ?tl"
        using False d rune by auto
      have IH: "read_chars (appendString_from esc ?tl @ quote # rest)
                  = Some (utf8_coerce ?tl, rest)"
        using 2(5) [OF False refl refl] d rune by simp
      show ?thesis unfolding A U using IH
        by (simp add: read_chars_high [OF h] push_Some del: read_chars.simps)
    qed
  qed
qed


lemma escape_byte_no_newline: "(of_char b :: nat) < 128 \<Longrightarrow> newline \<notin> set (escape_byte b)"
proof -
  assume "(of_char b :: nat) < 128"
  then have "of_char b div 16 < (16::nat)" "of_char b mod 16 < (16::nat)" by simp_all
  then have "hex (of_char b div 16) \<noteq> newline" "hex (of_char b mod 16) \<noteq> newline"
    using hex_not_special by blast+
  then show ?thesis by (auto simp: escape_byte_def newline_def bslash_def quote_def)
qed

lemma high_no_newline: "\<forall>x \<in> set xs. (0x80::nat) \<le> of_char x \<Longrightarrow> newline \<notin> set xs"
  by (auto simp: newline_def)

lemma appendString_from_no_newline: "newline \<notin> set (appendString_from esc s)"
proof (induction esc s rule: appendString_from.induct)
  case (1 esc)
  show ?case by simp
next
  case (2 esc b bs)
  obtain c n where d: "DecodeRuneInString (take 4 (b # bs)) = (c, n)"
    by (cases "DecodeRuneInString (take 4 (b # bs))")
  let ?tl = "drop n (b # bs)"
  show ?case
  proof (cases "(of_char b :: nat) < 0x80")
    case True
    show ?thesis
    proof (cases "htmlSafeSet b \<or> (\<not> esc \<and> safeSet b)")
      case safe: True
      have "b \<noteq> newline" using htmlSafe_safe [OF safe] by (auto simp: safeSet_def newline_def)
      with safe True 2(1) show ?thesis by simp
    next
      case False
      with True 2(2) escape_byte_no_newline [OF True] show ?thesis by auto
    qed
  next
    case False
    then have hi: "(0x80::nat) \<le> of_char b" by simp
    consider (bad) "c = RuneError \<and> n = 1"
      | (sep) "\<not> (c = RuneError \<and> n = 1)" "c = 0x2028 \<or> c = 0x2029"
      | (rune) "\<not> (c = RuneError \<and> n = 1)" "\<not> (c = 0x2028 \<or> c = 0x2029)"
      by blast
    then show ?thesis
    proof cases
      case bad
      have A: "appendString_from esc (b # bs) =
                 [bslash, CHR ''u'', CHR ''f'', CHR ''f'', CHR ''f'', CHR ''d'']
                   @ appendString_from esc ?tl"
        using False d bad by auto
      have IH: "newline \<notin> set (appendString_from esc ?tl)"
        using 2(3) [OF False refl refl] d bad by simp
      show ?thesis unfolding A using IH by (simp add: newline_def bslash_def)
    next
      case sep
      have A: "appendString_from esc (b # bs) =
                 [bslash, CHR ''u'', CHR ''2'', CHR ''0'', CHR ''2'', hex (c mod 16)]
                   @ appendString_from esc ?tl"
        using False d sep by auto
      have IH: "newline \<notin> set (appendString_from esc ?tl)"
        using 2(4) [OF False refl refl] d sep by simp
      have "hex (c mod 16) \<noteq> newline" using hex_not_special [of "c mod 16"] by simp
      then show ?thesis unfolding A using IH by (simp add: newline_def bslash_def)
    next
      case rune
      have h: "\<forall>x \<in> set (take n (b # bs)). (0x80::nat) \<le> of_char x"
        by (rule Decode_high_bytes [OF hi d rune(1)])
      have A: "appendString_from esc (b # bs) = take n (b # bs) @ appendString_from esc ?tl"
        using False d rune by auto
      have IH: "newline \<notin> set (appendString_from esc ?tl)"
        using 2(5) [OF False refl refl] d rune by simp
      show ?thesis unfolding A using IH high_no_newline [OF h] by simp
    qed
  qed
qed

lemma appendString_no_newline: "newline \<notin> set (appendString esc s)"
  using appendString_from_no_newline [of esc s]
  by (simp add: appendString_def quote_def newline_def)

lemma read_string_appendString:
  "read_string (appendString esc s @ rest) = Some (utf8_coerce s, rest)"
  by (simp add: read_string_def appendString_def read_chars_appendString_from)

lemma appendString_from_plain:
  "\<forall>c \<in> set s. safeSet c \<and> (of_char c :: nat) < 0x80 \<Longrightarrow> appendString_from False s = s"
  by (induction s) simp_all

lemma utf8_coerce_ascii:
  "\<forall>c \<in> set s. (of_char c :: nat) < 0x80 \<Longrightarrow> utf8_coerce s = s"
  by (induction s) simp_all

lemma sort_entry3:
  "sort_key fst [(''time'', t), (''level'', lv), (''msg'', m)]
     = [(''level'', lv), (''msg'', m), (''time'', t)]"
  by (simp add: less_eq_char_def less_char_def)

lemma sort_entry4:
  "sort_key fst [(''time'', t), (''level'', lv), (''msg'', m), (''caller'', c)]
     = [(''caller'', c), (''level'', lv), (''msg'', m), (''time'', t)]"
  by (simp add: less_eq_char_def less_char_def)

lemma json_entry_sorted:
  "sort_key fst (json_entry t ls m c) =
     (if c = [] then [] else [(''caller'', c)])
       @ [(''level'', take (length ls - 3) (drop 1 ls)), (''msg'', m), (''time'', t)]"
  by (simp add: json_entry_def sort_entry3 sort_entry4 del: sort_key_simps)

lemma level_slice: "S \<in> severities \<Longrightarrow>
   take (length (levelStr_of S) - 3) (drop 1 (levelStr_of S)) = level_name S"
  by (auto simp: severities_def levelStr_of_def level_name_def level_defs)


lemma length_encode_pairs: "length kvs \<le> length (encode_pairs esc kvs)"
  by (induction esc kvs rule: encode_pairs.induct) (simp_all add: appendString_def)

lemma read_members_encode_pairs:
  "kvs \<noteq> [] \<Longrightarrow> length kvs \<le> fuel \<Longrightarrow>
     read_members fuel (encode_pairs esc kvs @ CHR ''}'' # rest)
       = Some (map coerce_pair kvs, rest)"
proof (induction esc kvs arbitrary: fuel rule: encode_pairs.induct)
  case (1 esc)
  then show ?case by simp
next
  case (2 esc k v)
  then obtain n where "fuel = Suc n" by (cases fuel) auto
  then show ?case
    by (simp add: read_string_appendString coerce_pair_def)
next
  case (3 esc k v kv kvs)
  then obtain n where n: "fuel = Suc n" "length (kv # kvs) \<le> n" by (cases fuel) auto
  have IH: "read_members n (encode_pairs esc (kv # kvs) @ CHR ''}'' # rest)
              = Some (map coerce_pair (kv # kvs), rest)"
    using 3(1) [OF _ n(2)] by simp
  show ?case unfolding n(1)
    by (simp add: read_string_appendString coerce_pair_def IH
        del: encode_pairs.simps(3) read_members.simps)
       (simp add: read_string_appendString IH coerce_pair_def)
qed

lemma read_record_mapEncoder:
  assumes "m \<noteq> []"
  shows "read_record (mapEncoder esc m @ [newline]) = Some (map coerce_pair (sort_key fst m))"
proof -
  let ?kvs = "sort_key fst m"
  have ne: "?kvs \<noteq> []" using assms by (metis length_sort list.size(3) length_0_conv)
  obtain kv kvs where kv: "?kvs = kv # kvs" using ne by (cases ?kvs) auto
  obtain t where hd: "encode_pairs esc ?kvs = quote # t"
    unfolding kv by (cases kv; cases kvs) (auto simp: appendString_def)
  have len: "length ?kvs \<le> length (encode_pairs esc ?kvs @ CHR ''}'' # [newline])"
    using length_encode_pairs [of ?kvs esc] by simp
  have "read_object (mapEncoder esc m @ [newline])
          = read_members (length (encode_pairs esc ?kvs @ CHR ''}'' # [newline]))
              (encode_pairs esc ?kvs @ CHR ''}'' # [newline])"
    by (simp add: read_object_def mapEncoder_def hd quote_def)
  also have "\<dots> = Some (map coerce_pair ?kvs, [newline])"
    by (rule read_members_encode_pairs [OF ne len])
  finally show ?thesis by (simp add: read_record_def)
qed

subsection \<open>A call that passes the gate\<close>

lemma levelStr_of_length: "S \<in> severities \<Longrightarrow> \<not> length (levelStr_of S) < 3"
  by (auto simp: severities_def levelStr_of_def level_defs)

lemma log_console_pass:
  assumes "S \<in> severities" and "console_of l S = Some g"
  shows "log_console e l S m w = w\<lparr>written := written w @ [console_chunk e g m]\<rparr>"
  using assms
  by (auto simp: severities_def log_console_def console_of_def Println_def
      console_chunk_def newline_def level_defs)

lemma log_pass:
  assumes "S \<in> severities" and "level l \<le> S" and "console_of l S = Some g"
    and "status w = Running"
  shows "log e l S m w =
     (case logFile l of
        None \<Rightarrow> w\<lparr>written := written w @ [console_chunk e g m]\<rparr>
      | Some f \<Rightarrow> snd (File_Write f (file_record e l S m)
                        (w\<lparr>written := written w @ [console_chunk e g m]\<rparr>)))"
  using assms levelStr_of_length [OF assms(1)]
  by (simp add: log_def log_console_pass Let_def file_record_def Encode_def Fprintln_def
      SetEscapeHTML_def NewEncoder_def newline_def split: option.split)

lemma fullMsg_of_eq: "fullMsg_of e msg v w = (message e msg v, counted v w)"
  by (simp add: fullMsg_of_def message_def counted_def)

lemma Debug_pass:
  "level l \<le> DEBUG \<Longrightarrow>
     Debug e l msg v w = after_log DEBUG (log e l DEBUG (message e msg v) (counted v w))"
  by (simp add: Debug_def fullMsg_of_eq after_log_def level_defs)

lemma Info_pass:
  "level l \<le> INFO \<Longrightarrow>
     Info e l msg v w = after_log INFO (log e l INFO (message e msg v) (counted v w))"
  by (simp add: Info_def fullMsg_of_eq after_log_def level_defs)

lemma Warning_pass:
  "level l \<le> WARNING \<Longrightarrow>
     Warning e l msg v w = after_log WARNING (log e l WARNING (message e msg v) (counted v w))"
  by (simp add: Warning_def fullMsg_of_eq after_log_def level_defs)

lemma Error_pass:
  "level l \<le> ERROR \<Longrightarrow>
     Error e l msg v w = after_log ERROR (log e l ERROR (message e msg v) (counted v w))"
  by (simp add: Error_def fullMsg_of_eq after_log_def level_defs)

lemma Fatal_pass:
  "level l \<le> FATAL \<Longrightarrow>
     Fatal e l msg v w = after_log FATAL (log e l FATAL (message e msg v) (counted v w))"
  by (simp add: Fatal_def fullMsg_of_eq after_log_def Let_def)

lemma leveled_pass:
  assumes "S \<in> severities" and "level l \<le> S"
  shows "leveled S e l msg v w = after_log S (log e l S (message e msg v) (counted v w))"
proof -
  consider "S = DEBUG" | "S = INFO" | "S = WARNING" | "S = ERROR" | "S = FATAL"
    using assms(1) by (auto simp: severities_def)
  then show ?thesis
  proof cases
    case 1 with assms(2) show ?thesis by (simp add: leveled_def Debug_pass)
  next
    case 2 with assms(2) show ?thesis by (simp add: leveled_def Info_pass level_defs)
  next
    case 3 with assms(2) show ?thesis by (simp add: leveled_def Warning_pass level_defs)
  next
    case 4 with assms(2) show ?thesis by (simp add: leveled_def Error_pass level_defs)
  next
    case 5 with assms(2) show ?thesis by (simp add: leveled_def Fatal_pass level_defs)
  qed
qed


lemma leveled_pass_unfolded:
  assumes "S \<in> severities" and "level l \<le> S" and "console_of l S = Some g"
    and "status w = Running"
  shows "leveled S e l msg v w =
     w\<lparr>written := written w @ [console_chunk e g (message e msg v)],
       disk := (case logFile l of
                  None \<Rightarrow> disk w
                | Some f \<Rightarrow> if is_open w f
                            then appended w f (file_record e l S (message e msg v))
                            else disk w),
       formatted := formatted w + (if v = [] then 0 else 1),
       status := (if S = FATAL then Exited 1 else Running)\<rparr>"
proof -
  have st: "status (counted v w) = Running" using assms(4) by (simp add: counted_def)
  show ?thesis
    unfolding leveled_pass [OF assms(1,2)] log_pass [OF assms(1,2,3) st]
    using assms(4)
    by (simp add: after_log_def counted_def File_Write_def is_open_def fd_path_def
        content_def appended_def split: option.split)
qed

subsection \<open>The gate\<close>

lemma leveled_below:
  assumes "S \<in> severities" and "S < level l"
  shows "leveled S e l msg v w = w"
  using assms
  by (auto simp: severities_def leveled_def level_defs
      Debug_def Info_def Warning_def Error_def Fatal_def)

text \<open>
  C1. A leveled method whose severity lies strictly below the threshold of the logger
  returns the world as it found it: nothing is written to a console destination or to
  a file, no template has gone through \<open>fmt.Sprintf\<close>, and the process runs on. The
  logger itself is not touched by any leveled method. The shared \<open>log\<close> has the same
  gate of its own.
\<close>

theorem gate_short_circuit:
  assumes "S \<in> severities" and "S < level l"
  shows "leveled S e l msg v w = w
         \<and> written (leveled S e l msg v w) = written w
         \<and> disk (leveled S e l msg v w) = disk w
         \<and> formatted (leveled S e l msg v w) = formatted w
         \<and> status (leveled S e l msg v w) = status w
         \<and> log e l S msg w = w"
  using leveled_below [OF assms] assms(2) by (simp add: log_def)

theorem gate_short_circuit_witness:
  "DEBUG \<in> severities \<and> DEBUG < level ex_logger
   \<and> Debug ex_env ex_logger ''x %d'' [GInt 1] ex_started = ex_started
   \<and> written (Debug ex_env ex_logger ''x %d'' [GInt 1] ex_started) = []
   \<and> formatted (Debug ex_env ex_logger ''x %d'' [GInt 1] ex_started) = 0"
proof -
  have S: "DEBUG \<in> severities" by (simp add: severities_def)
  have lt: "DEBUG < level ex_logger" by (simp add: ex_logger_def level_defs)
  have m: "leveled DEBUG = Debug" by (simp add: leveled_def)
  from gate_short_circuit [OF S lt, of ex_env "''x %d''" "[GInt 1]" ex_started]
  show ?thesis using S lt by (simp add: m ex_started_def)
qed

text \<open>
  C9. \<open>SetLevel\<close> takes any integer. With a threshold strictly above \<open>FATAL\<close>, \<open>Fatal\<close>
  returns at its gate: nothing is written to a console destination or to a file, and
  the process is not terminated, \<open>os.Exit\<close> not being reached.
\<close>

theorem fatal_above_threshold:
  assumes "FATAL < lv"
  shows "level (SetLevel l lv) = lv
         \<and> Fatal e (SetLevel l lv) msg v w = w
         \<and> written (Fatal e (SetLevel l lv) msg v w) = written w
         \<and> disk (Fatal e (SetLevel l lv) msg v w) = disk w
         \<and> status (Fatal e (SetLevel l lv) msg v w) = status w"
  using assms by (simp add: SetLevel_def Fatal_def)

theorem fatal_above_threshold_witness:
  "FATAL < 5
   \<and> Fatal ex_env (SetLevel ex_logger 5) ''bye'' [] ex_started = ex_started
   \<and> status (Fatal ex_env (SetLevel ex_logger 5) ''bye'' [] ex_started) = Running
   \<and> status (Fatal ex_env ex_logger ''bye'' [] ex_started) = Exited 1"
proof -
  have lt: "FATAL < 5" by (simp add: level_defs)
  have ex: "status (Fatal ex_env ex_logger ''bye'' [] ex_started) = Exited 1"
    by (simp add: Fatal_def fullMsg_of_def log_def log_console_def Println_def Let_def
        Fprintln_def File_Write_def is_open_def ex_logger_def ex_started_def level_defs)
  from fatal_above_threshold [OF lt, of ex_logger ex_env "''bye''" "[]" ex_started]
  show ?thesis using lt ex by (simp add: ex_started_def)
qed

subsection \<open>The mutators\<close>

text \<open>
  C10. \<open>SetLevel\<close>, \<open>WithTimeFormat\<close>, \<open>WithCaller\<close> and \<open>WithJSON\<close> each write one field
  of the logger, \<open>level\<close>, \<open>timeFormat\<close>, \<open>withCaller\<close> and \<open>jsonMode\<close> in this order, and
  leave the file sink, the console destination, the five console loggers and every
  other field as they were; \<open>WithTimeFormat\<close> with the empty layout changes nothing.
  None of the four takes or returns the world.
\<close>

theorem mutators_frame:
  "kept l (SetLevel l lv)
   \<and> level (SetLevel l lv) = lv
   \<and> timeFormat (SetLevel l lv) = timeFormat l
   \<and> withCaller (SetLevel l lv) = withCaller l
   \<and> jsonMode (SetLevel l lv) = jsonMode l
   \<and> kept l (WithTimeFormat l layout)
   \<and> level (WithTimeFormat l layout) = level l
   \<and> timeFormat (WithTimeFormat l layout) = (if layout = [] then timeFormat l else layout)
   \<and> withCaller (WithTimeFormat l layout) = withCaller l
   \<and> jsonMode (WithTimeFormat l layout) = jsonMode l
   \<and> WithTimeFormat l [] = l
   \<and> kept l (WithCaller l enable)
   \<and> level (WithCaller l enable) = level l
   \<and> timeFormat (WithCaller l enable) = timeFormat l
   \<and> withCaller (WithCaller l enable) = enable
   \<and> jsonMode (WithCaller l enable) = jsonMode l
   \<and> kept l (WithJSON l)
   \<and> level (WithJSON l) = level l
   \<and> timeFormat (WithJSON l) = timeFormat l
   \<and> withCaller (WithJSON l) = withCaller l
   \<and> jsonMode (WithJSON l) = True"
  by (simp add: SetLevel_def WithTimeFormat_def WithCaller_def WithJSON_def kept_def)

theorem mutators_frame_witness:
  "kept ex_logger (SetLevel ex_logger 7)
   \<and> level (SetLevel ex_logger 7) = 7
   \<and> logFile (WithJSON ex_logger) = Some 0
   \<and> timeFormat (WithTimeFormat ex_logger ''15:04'') = ''15:04''
   \<and> WithTimeFormat ex_logger [] = ex_logger"
proof -
  note m = mutators_frame [of ex_logger 7 "''15:04''" True]
  have "logFile (WithJSON ex_logger) = Some 0"
    using m by (simp add: kept_def ex_logger_def)
  moreover have "timeFormat (WithTimeFormat ex_logger ''15:04'') = ''15:04''"
    using m by simp
  ultimately show ?thesis using m by simp
qed

subsection \<open>One line for each call\<close>

lemma encode_pairs_no_newline: "newline \<notin> set (encode_pairs esc kvs)"
  by (induction esc kvs rule: encode_pairs.induct)
     (simp_all add: appendString_no_newline, simp_all add: newline_def)

lemma mapEncoder_no_newline: "newline \<notin> set (mapEncoder esc m)"
  using encode_pairs_no_newline [of esc "sort_key fst m"]
  by (simp add: mapEncoder_def) (simp add: newline_def)

lemma file_record_last: "last (file_record e l S m) = newline"
  by (simp add: file_record_def)

lemma file_record_json_one_line:
  "jsonMode l \<Longrightarrow> newline \<notin> set (butlast (file_record e l S m))"
  by (simp add: file_record_def butlast_append mapEncoder_no_newline)

lemma sink_open_cases:
  "sink_open l w \<longleftrightarrow> (\<exists>f. logFile l = Some f \<and> is_open w f)"
  by (simp add: sink_open_def split: option.split)

lemma lines_in_append: "lines_in (a @ b) = lines_in a + lines_in b"
  by (simp add: lines_in_def)

lemma lines_in_none: "newline \<notin> set s \<Longrightarrow> lines_in s = 0"
  by (auto simp: lines_in_def filter_empty_conv)

lemma lines_in_levelStr: "lines_in (levelStr_of S) = 0"
  by (rule lines_in_none) (simp add: levelStr_of_def newline_def)

lemma lines_in_console_chunk:
  "lines_in (snd (console_chunk e g m)) = 1 + lines_in (lg_prefix g @ clock e @ m)"
  by (simp add: console_chunk_def lines_in_def newline_def)

lemma lines_in_Cons: "lines_in (c # s) = (if c = newline then 1 else 0) + lines_in s"
  by (simp add: lines_in_def)

lemma lines_in_Nil: "lines_in [] = 0"
  by (simp add: lines_in_def)

lemma lines_in_file_record:
  "lines_in (file_record e l S m)
     = 1 + (if jsonMode l then 0
            else lines_in (Now_Format e (timeFormat l) @ m @ caller_of e l))"
proof (cases "jsonMode l")
  case True
  then show ?thesis
    by (simp add: file_record_def lines_in_append lines_in_none [OF mapEncoder_no_newline]
        lines_in_Cons lines_in_Nil)
next
  case False
  have c: "CHR '' '' \<noteq> newline" "CHR ''('' \<noteq> newline" "CHR '')'' \<noteq> newline"
    by (simp_all add: newline_def)
  show ?thesis using False
    by (simp add: file_record_def plain_line_def Let_def lines_in_append lines_in_levelStr
        lines_in_Cons lines_in_Nil c)
qed

text \<open>
  C4. A leveled method whose severity is at or above the threshold hands exactly one
  \<open>Write\<close> to the console destination, and the text of it ends in a newline. When the
  logger has a file sink that is open, the call appends exactly one record to that
  file, and when it has none, or one that has been closed, the files stay as they are;
  a record ends in a newline. Nothing takes a newline out of what is logged: the text
  for the console holds one line more than the prefix, the time of day and the message
  hold newlines, and a record of the plain mode one line more than the formatted time,
  the message and the caller do. So each is exactly one line when these hold no
  newline. A record of the structured mode is exactly one line whatever the message is.
  The logger is taken as \<open>NewLogger\<close> builds it, with its console loggers set, and the
  process as running.
\<close>

theorem one_write_per_call:
  assumes "S \<in> severities" and "level l \<le> S" and "console_of l S = Some g"
    and "status w = Running"
  shows "written (leveled S e l msg v w)
           = written w @ [console_chunk e g (message e msg v)]
         \<and> length (written (leveled S e l msg v w)) = length (written w) + 1
         \<and> last (snd (console_chunk e g (message e msg v))) = newline
         \<and> lines_in (snd (console_chunk e g (message e msg v)))
             = 1 + lines_in (lg_prefix g @ clock e @ message e msg v)
         \<and> (sink_open l w \<longrightarrow>
               (\<exists>f. logFile l = Some f
                  \<and> disk (leveled S e l msg v w)
                      = appended w f (file_record e l S (message e msg v))))
         \<and> (\<not> sink_open l w \<longrightarrow> disk (leveled S e l msg v w) = disk w)
         \<and> last (file_record e l S (message e msg v)) = newline
         \<and> lines_in (file_record e l S (message e msg v))
             = 1 + (if jsonMode l then 0
                    else lines_in (Now_Format e (timeFormat l) @ message e msg v
                                     @ caller_of e l))
         \<and> (jsonMode l \<longrightarrow>
               newline \<notin> set (butlast (file_record e l S (message e msg v))))"
proof -
  have "written (leveled S e l msg v w)
           = written w @ [console_chunk e g (message e msg v)]
         \<and> length (written (leveled S e l msg v w)) = length (written w) + 1
         \<and> last (snd (console_chunk e g (message e msg v))) = newline
         \<and> (sink_open l w \<longrightarrow>
               (\<exists>f. logFile l = Some f
                  \<and> disk (leveled S e l msg v w)
                      = appended w f (file_record e l S (message e msg v))))
         \<and> (\<not> sink_open l w \<longrightarrow> disk (leveled S e l msg v w) = disk w)
         \<and> last (file_record e l S (message e msg v)) = newline
         \<and> (jsonMode l \<longrightarrow>
               newline \<notin> set (butlast (file_record e l S (message e msg v))))"
    unfolding leveled_pass_unfolded [OF assms]
    by (auto simp: sink_open_cases console_chunk_def file_record_last
        file_record_json_one_line split: option.splits)
  then show ?thesis
    using lines_in_console_chunk [of e g "message e msg v"]
      lines_in_file_record [of e l S "message e msg v"]
    by blast
qed

theorem one_write_per_call_witness:
  "INFO \<in> severities \<and> level ex_logger \<le> INFO \<and> status ex_started = Running
   \<and> sink_open ex_logger ex_started
   \<and> written (Info ex_env ex_logger ''started %s'' [GString ''svc''] ex_started)
       = [(Stdout, ''[INFO] 12:00:00 started svc'' @ [newline])]
   \<and> lines_in (''[INFO] 12:00:00 started svc'' @ [newline]) = 1
   \<and> disk (Info ex_env ex_logger ''started %s'' [GString ''svc''] ex_started) ''app.log''
       = Some (''2025-11-20 12:00:00 [INFO] started svc'' @ [newline])
   \<and> lines_in (''2025-11-20 12:00:00 [INFO] started svc'' @ [newline]) = 1"
proof -
  have S: "INFO \<in> severities" by (simp add: severities_def)
  have lv: "level ex_logger \<le> INFO" by (simp add: ex_logger_def)
  have g: "console_of ex_logger INFO = Some \<lparr>lg_out = Stdout, lg_prefix = ''[INFO] ''\<rparr>"
    by (simp add: console_of_def ex_logger_def level_defs)
  have st: "status ex_started = Running" by (simp add: ex_started_def)
  have so: "sink_open ex_logger ex_started"
    by (simp add: sink_open_def ex_logger_def ex_started_def is_open_def)
  have m: "message ex_env ''started %s'' [GString ''svc''] = ''started svc''"
    by (simp add: message_def ex_env_def)
  have lf: "logFile ex_logger = Some 0" by (simp add: ex_logger_def)
  have rec: "file_record ex_env ex_logger INFO ''started svc''
               = ''2025-11-20 12:00:00 [INFO] started svc'' @ [newline]"
    by (simp add: file_record_def plain_line_def levelStr_of_def caller_of_def
        ex_logger_def ex_env_def level_defs)
  have lm: "leveled INFO = Info" by (simp add: leveled_def level_defs)
  have ck: "clock ex_env = ''12:00:00''" by (simp add: ex_env_def)
  have wr: "written ex_started = []" by (simp add: ex_started_def)
  have ch: "snd (console_chunk ex_env \<lparr>lg_out = Stdout, lg_prefix = ''[INFO] ''\<rparr>
                   ''started svc'') = ''[INFO] 12:00:00 started svc'' @ [newline]"
    by (simp add: console_chunk_def ck)
  have z: "lines_in (''[INFO] '' @ ''12:00:00'' @ ''started svc'') = 0"
    "lines_in (Now_Format ex_env (timeFormat ex_logger) @ ''started svc''
                 @ caller_of ex_env ex_logger) = 0"
    "\<not> jsonMode ex_logger"
    by (simp_all add: lines_in_def newline_def ex_env_def ex_logger_def caller_of_def)
  note t = one_write_per_call [OF S lv g st, of ex_env "''started %s''" "[GString ''svc'']"]
  from t have "written (Info ex_env ex_logger ''started %s'' [GString ''svc''] ex_started)
          = [(Stdout, ''[INFO] 12:00:00 started svc'' @ [newline])]"
    and "disk (Info ex_env ex_logger ''started %s'' [GString ''svc''] ex_started)
          = appended ex_started 0 (''2025-11-20 12:00:00 [INFO] started svc'' @ [newline])"
    using so ck wr by (simp_all add: lm m lf rec console_chunk_def)
  moreover from t have "lines_in (snd (console_chunk ex_env
        \<lparr>lg_out = Stdout, lg_prefix = ''[INFO] ''\<rparr>
        (message ex_env ''started %s'' [GString ''svc'']))) =
      1 + lines_in (lg_prefix \<lparr>lg_out = Stdout, lg_prefix = ''[INFO] ''\<rparr> @ clock ex_env
                      @ message ex_env ''started %s'' [GString ''svc''])"
    by blast
  then have "lines_in (''[INFO] 12:00:00 started svc'' @ [newline]) = 1"
    using z(1) by (simp add: m ch ck)
  moreover from t have "lines_in (file_record ex_env ex_logger INFO
        (message ex_env ''started %s'' [GString ''svc''])) =
      1 + (if jsonMode ex_logger then 0
           else lines_in (Now_Format ex_env (timeFormat ex_logger)
                            @ message ex_env ''started %s'' [GString ''svc'']
                            @ caller_of ex_env ex_logger))"
    by blast
  then have "lines_in (''2025-11-20 12:00:00 [INFO] started svc'' @ [newline]) = 1"
    using z(2,3) by (simp add: m rec)
  ultimately show ?thesis using S lv st so
    by (simp add: appended_def fd_path_def content_def ex_started_def)
qed

text \<open>
  A message that holds a newline passes the gate like any other: \<open>Info("a\nb")\<close> on the
  logger of \<open>NewLogger(WithFilePath("app.log"), WithLevel(INFO))\<close> puts two lines on the
  console and two lines into the file.
\<close>

theorem one_line_per_call_counterexample:
  "INFO \<in> severities \<and> level ex_logger \<le> INFO \<and> status ex_started = Running
   \<and> sink_open ex_logger ex_started
   \<and> written (Info ex_env ex_logger [CHR ''a'', newline, CHR ''b''] [] ex_started)
       = [(Stdout, ''[INFO] 12:00:00 a'' @ [newline] @ ''b'' @ [newline])]
   \<and> lines_in (concat (map snd
         (written (Info ex_env ex_logger [CHR ''a'', newline, CHR ''b''] [] ex_started))))
       = 2
   \<and> disk (Info ex_env ex_logger [CHR ''a'', newline, CHR ''b''] [] ex_started) ''app.log''
       = Some (''2025-11-20 12:00:00 [INFO] a'' @ [newline] @ ''b'' @ [newline])
   \<and> lines_in (content (Info ex_env ex_logger [CHR ''a'', newline, CHR ''b''] []
                           ex_started) ''app.log'')
       = 2
   \<and> lines_in (content (Info ex_env ex_logger [CHR ''a'', newline, CHR ''b''] []
                           ex_started) ''app.log'')
       \<noteq> 1"
proof -
  have S: "INFO \<in> severities" by (simp add: severities_def)
  have lv: "level ex_logger \<le> INFO" by (simp add: ex_logger_def)
  have st: "status ex_started = Running" by (simp add: ex_started_def)
  have so: "sink_open ex_logger ex_started"
    by (simp add: sink_open_def ex_logger_def ex_started_def is_open_def)
  have w: "Info ex_env ex_logger [CHR ''a'', newline, CHR ''b''] [] ex_started
      = ex_started\<lparr>written := [(Stdout, ''[INFO] 12:00:00 a'' @ [newline] @ ''b'' @ [newline])],
          disk := [''app.log'' \<mapsto>
                    ''2025-11-20 12:00:00 [INFO] a'' @ [newline] @ ''b'' @ [newline]]\<rparr>"
    by (simp add: Info_def fullMsg_of_def log_def log_console_def Println_def Let_def
        Fprintln_def File_Write_def is_open_def fd_path_def content_def plain_line_def
        levelStr_of_def caller_of_def ex_logger_def ex_started_def ex_env_def level_defs
        newline_def)
  show ?thesis using S lv st so unfolding w
    by (simp add: content_def lines_in_def) (simp add: newline_def)
qed

subsection \<open>The message\<close>

text \<open>
  C5. A leveled method that passes the gate logs \<open>fmt.Sprintf\<close> of the template and
  the operands when there is at least one operand, and the template itself, byte for
  byte, when there is none: \<open>fmt.Sprintf\<close> is called once in the first case and not at
  all in the second, whatever the template holds, a percent sign included. The message
  is the one on the console line and in the record of the file.
\<close>

theorem interpolation_iff_operands:
  assumes "S \<in> severities" and "level l \<le> S" and "console_of l S = Some g"
    and "status w = Running"
  shows "written (leveled S e l msg v w)
           = written w @ [(lg_out g, lg_prefix g @ clock e @ '' ''
                             @ (if v = [] then msg else Sprintf e msg v) @ [newline])]
         \<and> formatted (leveled S e l msg v w) = formatted w + (if v = [] then 0 else 1)
         \<and> (\<forall>f. logFile l = Some f \<and> is_open w f \<longrightarrow>
               disk (leveled S e l msg v w)
                 = appended w f (file_record e l S (if v = [] then msg else Sprintf e msg v)))"
  unfolding leveled_pass_unfolded [OF assms]
  by (simp add: console_chunk_def message_def)

theorem interpolation_iff_operands_witness:
  "INFO \<in> severities \<and> level ex_logger \<le> INFO \<and> status ex_started = Running
   \<and> written (Info ex_env ex_logger ''100% done'' [] ex_started)
       = [(Stdout, ''[INFO] 12:00:00 100% done'' @ [newline])]
   \<and> formatted (Info ex_env ex_logger ''100% done'' [] ex_started) = 0
   \<and> written (Info ex_env ex_logger ''n=%d'' [GInt 7] ex_started)
       = [(Stdout, ''[INFO] 12:00:00 n=7'' @ [newline])]
   \<and> formatted (Info ex_env ex_logger ''n=%d'' [GInt 7] ex_started) = 1"
proof -
  have S: "INFO \<in> severities" by (simp add: severities_def)
  have lv: "level ex_logger \<le> INFO" by (simp add: ex_logger_def)
  have g: "console_of ex_logger INFO = Some \<lparr>lg_out = Stdout, lg_prefix = ''[INFO] ''\<rparr>"
    by (simp add: console_of_def ex_logger_def level_defs)
  have st: "status ex_started = Running" by (simp add: ex_started_def)
  have lm: "leveled INFO = Info" by (simp add: leveled_def level_defs)
  have ck: "clock ex_env = ''12:00:00''" by (simp add: ex_env_def)
  have wr: "written ex_started = []" "formatted ex_started = 0"
    by (simp_all add: ex_started_def)
  have sp: "Sprintf ex_env ''n=%d'' [GInt 7] = ''n=7''"
    by (simp add: ex_env_def Itoa_def digit_def)
  from interpolation_iff_operands [OF S lv g st, of ex_env "''100% done''" "[]"]
    interpolation_iff_operands [OF S lv g st, of ex_env "''n=%d''" "[GInt 7]"]
  show ?thesis using S lv st by (simp add: lm ck wr sp)
qed

subsection \<open>The plain line\<close>

lemma levelStr_of_name: "S \<in> severities \<Longrightarrow> levelStr_of S = ''['' @ level_name S @ ''] ''"
  by (auto simp: severities_def levelStr_of_def level_name_def level_defs)

lemma caller_of_nonempty: "caller_of e l \<noteq> [] \<longleftrightarrow> withCaller l \<and> Caller e \<noteq> None"
  by (auto simp: caller_of_def split: option.splits)

text \<open>
  C8. In the plain mode, a leveled method that passes the gate and finds its file sink
  open appends to the file the formatted time, a space, the name of the level in square
  brackets, a space and the message, then the suffix \<open>(file:line)\<close> after a space
  exactly when the resolved caller is not empty, then a newline. The caller is not
  empty exactly when the caller is wanted and the run-time system finds it, and it is
  the base name of the file, a colon and the line. No other file changes.
\<close>

theorem plain_file_line:
  assumes "S \<in> severities" and "level l \<le> S" and "console_of l S = Some g"
    and "status w = Running"
    and "\<not> jsonMode l" and "logFile l = Some f" and "is_open w f"
  shows "disk (leveled S e l msg v w)
           = (disk w)(fd_path w f \<mapsto>
               content w (fd_path w f)
                 @ Now_Format e (timeFormat l) @ '' ['' @ level_name S @ ''] ''
                 @ message e msg v
                 @ (if caller_of e l = [] then [] else '' ('' @ caller_of e l @ '')'')
                 @ [newline])
         \<and> (caller_of e l \<noteq> [] \<longleftrightarrow> withCaller l \<and> Caller e \<noteq> None)
         \<and> (\<forall>file line. withCaller l \<and> Caller e = Some (file, line) \<longrightarrow>
               caller_of e l = Base file @ '':'' @ Itoa line)"
proof -
  have "disk (leveled S e l msg v w) = appended w f (file_record e l S (message e msg v))"
    unfolding leveled_pass_unfolded [OF assms(1-4)] using assms(6,7) by simp
  moreover have "file_record e l S (message e msg v)
      = Now_Format e (timeFormat l) @ '' ['' @ level_name S @ ''] '' @ message e msg v
          @ (if caller_of e l = [] then [] else '' ('' @ caller_of e l @ '')'') @ [newline]"
    using assms(5) by (simp add: file_record_def plain_line_def levelStr_of_name [OF assms(1)])
  ultimately show ?thesis
    by (simp add: appended_def caller_of_nonempty) (simp add: caller_of_def)
qed

theorem plain_file_line_witness:
  "WARNING \<in> severities \<and> level (WithCaller ex_logger True) \<le> WARNING
   \<and> status ex_started = Running \<and> \<not> jsonMode (WithCaller ex_logger True)
   \<and> logFile (WithCaller ex_logger True) = Some 0 \<and> is_open ex_started 0
   \<and> disk (Warning ex_env (WithCaller ex_logger True) ''Be careful'' [] ex_started)
        ''app.log''
       = Some (''2025-11-20 12:00:00 [WARNING] Be careful (main.go:42)'' @ [newline])"
proof -
  let ?l = "WithCaller ex_logger True"
  have S: "WARNING \<in> severities" by (simp add: severities_def)
  have lv: "level ?l \<le> WARNING" by (simp add: ex_logger_def WithCaller_def level_defs)
  have g: "console_of ?l WARNING = Some \<lparr>lg_out = Stdout, lg_prefix = ''[WARNING] ''\<rparr>"
    by (simp add: console_of_def ex_logger_def WithCaller_def level_defs)
  have st: "status ex_started = Running" by (simp add: ex_started_def)
  have j: "\<not> jsonMode ?l" by (simp add: ex_logger_def WithCaller_def)
  have lf: "logFile ?l = Some 0" by (simp add: ex_logger_def WithCaller_def)
  have op: "is_open ex_started 0" by (simp add: is_open_def ex_started_def)
  have lm: "leveled WARNING = Warning" by (simp add: leveled_def level_defs)
  have c: "caller_of ex_env ?l = ''main.go:42''"
    by (simp add: caller_of_def ex_env_def WithCaller_def Base_def Itoa_def digit_def)
  have n: "Now_Format ex_env (timeFormat ?l) = ''2025-11-20 12:00:00''"
    by (simp add: ex_env_def)
  have nm: "level_name WARNING = ''WARNING''" by (simp add: level_name_def level_defs)
  have d: "fd_path ex_started 0 = ''app.log''" "content ex_started ''app.log'' = []"
    by (simp_all add: fd_path_def content_def ex_started_def)
  from plain_file_line [OF S lv g st j lf op, of ex_env "''Be careful''" "[]"]
  have "disk (Warning ex_env ?l ''Be careful'' [] ex_started) ''app.log''
          = Some (''2025-11-20 12:00:00 [WARNING] Be careful (main.go:42)'' @ [newline])"
    by (simp add: lm c n nm d message_def)
  then show ?thesis using S lv st j lf op by simp
qed

subsection \<open>The structured record\<close>

lemma appendString_printable:
  "\<forall>c \<in> set s. printable c \<Longrightarrow> appendString False s = quoted s"
  by (simp add: appendString_def quoted_def appendString_from_plain printable_def)

lemma utf8_coerce_printable: "\<forall>c \<in> set s. printable c \<Longrightarrow> utf8_coerce s = s"
  by (rule utf8_coerce_ascii) (simp add: printable_def)

lemma printable_level_name: "\<forall>c \<in> set (level_name S). printable c"
  by (simp add: level_name_def printable_def safeSet_def quote_def bslash_def)

lemma printable_keys:
  "\<forall>c \<in> set ''caller''. printable c" "\<forall>c \<in> set ''level''. printable c"
  "\<forall>c \<in> set ''msg''. printable c" "\<forall>c \<in> set ''time''. printable c"
  by (simp_all add: printable_def safeSet_def quote_def bslash_def)

lemma printable_html: "printable (CHR ''<'') \<and> printable (CHR ''>'') \<and> printable (CHR ''&'')"
  by (simp add: printable_def safeSet_def quote_def bslash_def)

lemma json_entry_nonempty: "json_entry t ls m c \<noteq> []"
  by (simp add: json_entry_def Let_def)

lemma level_slice_Suc:
  "S \<in> severities \<Longrightarrow>
     take (length (levelStr_of S) - 3) (drop (Suc 0) (levelStr_of S)) = level_name S"
  using level_slice [of S] by simp

lemma json_record_text:
  assumes "S \<in> severities" and "jsonMode l"
  shows "file_record e l S m =
     ''{''
       @ (if caller_of e l = [] then []
          else quoted ''caller'' @ '':'' @ appendString False (caller_of e l) @ '','')
       @ quoted ''level'' @ '':'' @ quoted (level_name S) @ '',''
       @ quoted ''msg'' @ '':'' @ appendString False m @ '',''
       @ quoted ''time'' @ '':'' @ appendString False (Now_Format e (timeFormat l))
       @ ''}'' @ [newline]"
  using assms(2)
  by (simp add: file_record_def mapEncoder_def json_entry_sorted level_slice_Suc [OF assms(1)]
      appendString_printable printable_keys printable_level_name)

lemma json_record_read:
  assumes "S \<in> severities" and "jsonMode l"
  shows "read_record (file_record e l S m) =
     Some ((if caller_of e l = [] then [] else [(''caller'', utf8_coerce (caller_of e l))])
           @ [(''level'', level_name S), (''msg'', utf8_coerce m),
              (''time'', utf8_coerce (Now_Format e (timeFormat l)))])"
  using assms(2)
  by (simp add: file_record_def read_record_mapEncoder [OF json_entry_nonempty]
      json_entry_sorted level_slice_Suc [OF assms(1)] coerce_pair_def
      utf8_coerce_printable printable_keys printable_level_name)


text \<open>
  C7. In the structured mode, a leveled method that passes the gate and finds its file
  sink open appends one record to the file. The record is one line: it ends in a newline
  and holds no other. Read back, it has exactly the members \<open>caller\<close>, when and only when
  the resolved caller is not empty, \<open>level\<close>, \<open>msg\<close> and \<open>time\<close>, each a string; \<open>level\<close>
  is the name of the level in capitals without brackets; the other values are the
  strings the logger had, a byte that is not UTF-8 standing as the replacement
  character. The record is written with the escaping of \<open><\<close>, \<open>>\<close> and \<open>&\<close> switched off:
  a string of printable ASCII, these three included, stands in the record as it is,
  between quotes, and reads back unchanged.
\<close>

theorem structured_record:
  assumes "S \<in> severities" and "level l \<le> S" and "console_of l S = Some g"
    and "status w = Running"
    and "jsonMode l" and "logFile l = Some f" and "is_open w f"
  shows "disk (leveled S e l msg v w)
           = appended w f (file_record e l S (message e msg v))
         \<and> last (file_record e l S (message e msg v)) = newline
         \<and> newline \<notin> set (butlast (file_record e l S (message e msg v)))
         \<and> read_record (file_record e l S (message e msg v))
             = Some ((if caller_of e l = [] then []
                      else [(''caller'', utf8_coerce (caller_of e l))])
                     @ [(''level'', level_name S),
                        (''msg'', utf8_coerce (message e msg v)),
                        (''time'', utf8_coerce (Now_Format e (timeFormat l)))])
         \<and> file_record e l S (message e msg v)
             = ''{''
               @ (if caller_of e l = [] then []
                  else quoted ''caller'' @ '':'' @ appendString False (caller_of e l) @ '','')
               @ quoted ''level'' @ '':'' @ quoted (level_name S) @ '',''
               @ quoted ''msg'' @ '':'' @ appendString False (message e msg v) @ '',''
               @ quoted ''time'' @ '':'' @ appendString False (Now_Format e (timeFormat l))
               @ ''}'' @ [newline]
         \<and> (\<forall>s. (\<forall>c \<in> set s. printable c) \<longrightarrow>
               appendString False s = quoted s \<and> utf8_coerce s = s)
         \<and> printable (CHR ''<'') \<and> printable (CHR ''>'') \<and> printable (CHR ''&'')"
proof -
  have "disk (leveled S e l msg v w) = appended w f (file_record e l S (message e msg v))"
    unfolding leveled_pass_unfolded [OF assms(1-4)] using assms(6,7) by simp
  moreover note file_record_last [of e l S "message e msg v"]
    file_record_json_one_line [OF assms(5), of e S "message e msg v"]
    json_record_read [OF assms(1,5), of e "message e msg v"]
    json_record_text [OF assms(1,5), of e "message e msg v"]
    printable_html
  moreover have "\<forall>s. (\<forall>c \<in> set s. printable c) \<longrightarrow>
                   appendString False s = quoted s \<and> utf8_coerce s = s"
    using appendString_printable utf8_coerce_printable by blast
  ultimately show ?thesis by blast
qed

theorem structured_record_witness:
  "ERROR \<in> severities \<and> level (WithJSON ex_logger) \<le> ERROR \<and> status ex_started = Running
   \<and> jsonMode (WithJSON ex_logger) \<and> logFile (WithJSON ex_logger) = Some 0
   \<and> is_open ex_started 0
   \<and> disk (Error ex_env (WithJSON ex_logger) ''a<b & c>d'' [] ex_started) ''app.log''
       = Some (''{'' @ quoted ''level'' @ '':'' @ quoted ''ERROR'' @ '',''
                 @ quoted ''msg'' @ '':'' @ quoted ''a<b & c>d'' @ '',''
                 @ quoted ''time'' @ '':'' @ quoted ''2025-11-20 12:00:00''
                 @ ''}'' @ [newline])
   \<and> read_record (''{'' @ quoted ''level'' @ '':'' @ quoted ''ERROR'' @ '',''
                 @ quoted ''msg'' @ '':'' @ quoted ''a<b & c>d'' @ '',''
                 @ quoted ''time'' @ '':'' @ quoted ''2025-11-20 12:00:00''
                 @ ''}'' @ [newline])
       = Some [(''level'', ''ERROR''), (''msg'', ''a<b & c>d''),
               (''time'', ''2025-11-20 12:00:00'')]"
proof -
  let ?l = "WithJSON ex_logger"
  let ?rec = "''{'' @ quoted ''level'' @ '':'' @ quoted ''ERROR'' @ '',''
                 @ quoted ''msg'' @ '':'' @ quoted ''a<b & c>d'' @ '',''
                 @ quoted ''time'' @ '':'' @ quoted ''2025-11-20 12:00:00''
                 @ ''}'' @ [newline]"
  have S: "ERROR \<in> severities" by (simp add: severities_def)
  have lv: "level ?l \<le> ERROR" by (simp add: ex_logger_def WithJSON_def level_defs)
  have g: "console_of ?l ERROR = Some \<lparr>lg_out = Stdout, lg_prefix = ''[ERROR] ''\<rparr>"
    by (simp add: console_of_def ex_logger_def WithJSON_def level_defs)
  have st: "status ex_started = Running" by (simp add: ex_started_def)
  have j: "jsonMode ?l" by (simp add: WithJSON_def)
  have lf: "logFile ?l = Some 0" by (simp add: ex_logger_def WithJSON_def)
  have op: "is_open ex_started 0" by (simp add: is_open_def ex_started_def)
  have lm: "leveled ERROR = Error" by (simp add: leveled_def level_defs)
  have c: "caller_of ex_env ?l = []"
    by (simp add: caller_of_def WithJSON_def ex_logger_def)
  have n: "Now_Format ex_env (timeFormat ?l) = ''2025-11-20 12:00:00''"
    by (simp add: ex_env_def)
  have nm: "level_name ERROR = ''ERROR''" by (simp add: level_name_def level_defs)
  have m: "message ex_env ''a<b & c>d'' [] = ''a<b & c>d''" by (simp add: message_def)
  have d: "fd_path ex_started 0 = ''app.log''" "content ex_started ''app.log'' = []"
    by (simp_all add: fd_path_def content_def ex_started_def)
  have p: "\<forall>c \<in> set ''a<b & c>d''. printable c"
    "\<forall>c \<in> set ''2025-11-20 12:00:00''. printable c"
    by (simp_all add: printable_def safeSet_def quote_def bslash_def)
  note t = structured_record [OF S lv g st j lf op, of ex_env "''a<b & c>d''" "[]"]
  have q: "appendString False ''a<b & c>d'' = quoted ''a<b & c>d''"
    "utf8_coerce ''a<b & c>d'' = ''a<b & c>d''"
    "appendString False ''2025-11-20 12:00:00'' = quoted ''2025-11-20 12:00:00''"
    "utf8_coerce ''2025-11-20 12:00:00'' = ''2025-11-20 12:00:00''"
    using t p by blast+
  have r: "file_record ex_env ?l ERROR ''a<b & c>d'' = ?rec"
    using t by (simp add: c n nm m q)
  have "disk (Error ex_env ?l ''a<b & c>d'' [] ex_started) ''app.log'' = Some ?rec"
    using t by (simp add: lm m r appended_def d)
  moreover have "read_record ?rec
      = Some [(''level'', ''ERROR''), (''msg'', ''a<b & c>d''),
              (''time'', ''2025-11-20 12:00:00'')]"
    using t by (simp add: m r c n nm q)
  ultimately show ?thesis using S lv st j lf op by simp
qed

subsection \<open>The file sink\<close>

lemma set_open_handles: "set (open_handles w) = {h. is_open w h}"
  by (auto simp: open_handles_def is_open_def)

lemma distinct_open_handles: "distinct (open_handles w)"
  by (simp add: open_handles_def)

lemma owns_iff:
  "owns l w \<longleftrightarrow>
     (\<forall>h. is_open w h \<longrightarrow> logFile l = Some h)
     \<and> (\<forall>f. logFile l = Some f \<longrightarrow> f < length (fds w))"
  by (auto simp: owns_def set_open_handles split: option.splits)

lemma open_handles_nil: "open_handles w = [] \<longleftrightarrow> (\<forall>h. \<not> is_open w h)"
  using set_open_handles [of w] by (auto simp flip: set_empty)

lemma open_handles_single:
  "open_handles w = [f] \<longleftrightarrow> (\<forall>h. is_open w h \<longleftrightarrow> h = f)"
proof
  assume "open_handles w = [f]"
  then show "\<forall>h. is_open w h \<longleftrightarrow> h = f" using set_open_handles [of w] by auto
next
  assume a: "\<forall>h. is_open w h \<longleftrightarrow> h = f"
  then have s: "set (open_handles w) = {f}" by (auto simp: set_open_handles)
  have "length (open_handles w) = card {f}"
    using distinct_card [OF distinct_open_handles, of w] s by simp
  then obtain x where "open_handles w = [x]"
    by (cases "open_handles w") (auto simp: length_Suc_conv)
  with s show "open_handles w = [f]" by simp
qed

lemma owns_at_most_one: "owns l w \<Longrightarrow> length (open_handles w) \<le> 1"
proof -
  assume "owns l w"
  then have "set (open_handles w) \<subseteq> set_option (logFile l)" by (simp add: owns_def)
  then have "card (set (open_handles w)) \<le> card (set_option (logFile l))"
    by (intro card_mono) simp_all
  also have "\<dots> \<le> 1" by (cases "logFile l") simp_all
  finally show ?thesis using distinct_card [OF distinct_open_handles, of w] by simp
qed

lemma fds_File_Write: "fds (snd (File_Write f b w)) = fds w"
  by (simp add: File_Write_def)

lemma fds_Println: "fds (Println e g m w) = fds w"
  by (simp add: Println_def split: option.split)

lemma fds_log_console: "fds (log_console e l lv m w) = fds w"
  by (simp add: log_console_def fds_Println)

lemma fds_log: "fds (log e l lv m w) = fds w"
  by (simp add: log_def Let_def Encode_def Fprintln_def fds_File_Write fds_log_console
      split: option.split)

lemma fds_Debug: "fds (Debug e l msg v w) = fds w"
  by (simp add: Debug_def fullMsg_of_eq fds_log counted_def)

lemma fds_Info: "fds (Info e l msg v w) = fds w"
  by (simp add: Info_def fullMsg_of_eq fds_log counted_def)

lemma fds_Warning: "fds (Warning e l msg v w) = fds w"
  by (simp add: Warning_def fullMsg_of_eq fds_log counted_def)

lemma fds_Error: "fds (Error e l msg v w) = fds w"
  by (simp add: Error_def fullMsg_of_eq fds_log counted_def)

lemma fds_Fatal: "fds (Fatal e l msg v w) = fds w"
  by (simp add: Fatal_def Let_def fullMsg_of_eq fds_log counted_def)

lemma is_open_File_Close:
  "is_open (snd (File_Close e f w)) h \<longleftrightarrow> is_open w h \<and> h \<noteq> f"
  by (auto simp: File_Close_def is_open_def nth_list_update)

lemma OpenFile_fails: "OpenFile e p w = (Inl err, w') \<Longrightarrow> w' = w"
  by (auto simp: OpenFile_def split: option.splits)

lemma OpenFile_opens:
  assumes "OpenFile e p w = (Inr f, w')"
  shows "f = length (fds w)" and "\<not> is_open w f"
    and "is_open w' h \<longleftrightarrow> is_open w h \<or> h = f" and "fd_path w' f = p"
    and "h \<noteq> f \<Longrightarrow> fd_path w' h = fd_path w h"
  using assms
  by (auto simp: OpenFile_def is_open_def fd_path_def nth_append split: option.splits)


lemma length_fds_File_Close: "length (fds (snd (File_Close e f w))) = length (fds w)"
  by (simp add: File_Close_def)

lemma owns_fds:
  assumes "fds w' = fds w" and "owns l w"
  shows "owns l w'"
proof -
  have "is_open w' = is_open w" using assms(1) by (simp add: is_open_def fun_eq_iff)
  then show ?thesis using assms by (auto simp: owns_def open_handles_def split: option.splits)
qed

lemma owns_File_Close:
  assumes "owns l w"
  shows "owns l (snd (File_Close e f w))"
  unfolding owns_iff
proof (intro conjI allI impI)
  fix h assume "is_open (snd (File_Close e f w)) h"
  then have "is_open w h" by (simp add: is_open_File_Close)
  then show "logFile l = Some h" using assms by (simp add: owns_iff)
next
  fix g assume "logFile l = Some g"
  then have "g < length (fds w)" using assms by (simp add: owns_iff)
  then show "g < length (fds (snd (File_Close e f w)))"
    by (simp add: length_fds_File_Close)
qed

lemma owns_Close: "owns l w \<Longrightarrow> owns l (snd (Close e l w))"
  by (cases "logFile l") (simp_all add: Close_def owns_File_Close)

lemma DisableFile_none:
  assumes "owns l w" and "DisableFile e l w = (l', w')"
  shows "logFile l' = None" and "open_handles w' = []"
proof -
  show "logFile l' = None"
    using assms(2) by (cases "logFile l") (auto simp: DisableFile_def)
  show "open_handles w' = []"
  proof (cases "logFile l")
    case None
    then have "w' = w" using assms(2) by (simp add: DisableFile_def)
    moreover have "\<forall>h. \<not> is_open w h" using assms(1) None by (simp add: owns_iff)
    ultimately show ?thesis by (simp add: open_handles_nil)
  next
    case (Some f)
    then have w': "w' = snd (File_Close e f w)" using assms(2) by (auto simp: DisableFile_def)
    have "\<forall>h. is_open w h \<longrightarrow> h = f" using assms(1) Some by (simp add: owns_iff)
    then show ?thesis unfolding w' open_handles_nil by (simp add: is_open_File_Close)
  qed
qed

lemma owns_DisableFile:
  assumes "owns l w" and "DisableFile e l w = (l', w')"
  shows "owns l' w'"
  using DisableFile_none [OF assms] by (simp add: owns_def)

lemma closed_first_none:
  assumes "owns l w"
  shows "\<not> is_open (closed_first e l w) h"
proof (cases "logFile l")
  case None
  then show ?thesis using assms by (simp add: closed_first_def owns_iff)
next
  case (Some f)
  have "is_open w h \<longrightarrow> h = f" using assms Some by (simp add: owns_iff)
  then show ?thesis using Some by (simp add: closed_first_def is_open_File_Close)
qed

lemma closed_first_length: "length (fds (closed_first e l w)) = length (fds w)"
  by (simp add: closed_first_def length_fds_File_Close split: option.split)

lemma EnableFile_cases:
  "EnableFile e l p w =
     (case OpenFile e p (closed_first e l w) of
        (Inl err, w2) \<Rightarrow> (Some err, l, w2)
      | (Inr f, w2) \<Rightarrow> (None, l\<lparr>logFile := Some f\<rparr>, w2))"
  by (simp add: EnableFile_def closed_first_def Let_def)

lemma EnableFile_fails:
  assumes "owns l w" and "EnableFile e l p w = (Some err, l', w')"
  shows "l' = l" and "open_handles w' = []" and "length (fds w') = length (fds w)"
proof -
  from assms(2) obtain x where o: "OpenFile e p (closed_first e l w) = (Inl x, w')"
    and l: "l' = l"
    by (auto simp: EnableFile_cases split: prod.splits sum.splits)
  show "l' = l" by (rule l)
  from OpenFile_fails [OF o] closed_first_none [OF assms(1), of e]
  show "open_handles w' = []" by (simp add: open_handles_nil)
  from OpenFile_fails [OF o] show "length (fds w') = length (fds w)"
    by (simp add: closed_first_length)
qed

lemma EnableFile_succeeds:
  assumes "owns l w" and "EnableFile e l p w = (None, l', w')"
  shows "\<exists>f. logFile l' = Some f \<and> open_handles w' = [f] \<and> fd_path w' f = p
             \<and> logFile l \<noteq> Some f \<and> f < length (fds w')"
proof -
  from assms(2) obtain f where o: "OpenFile e p (closed_first e l w) = (Inr f, w')"
    and l: "l' = l\<lparr>logFile := Some f\<rparr>"
    by (auto simp: EnableFile_cases split: prod.splits sum.splits)
  note c = closed_first_none [OF assms(1), of e]
  have op: "\<forall>h. is_open w' h \<longleftrightarrow> h = f" using OpenFile_opens(3) [OF o] c by simp
  then have "open_handles w' = [f]" by (simp add: open_handles_single)
  moreover have len: "f = length (fds w)"
    using OpenFile_opens(1) [OF o] by (simp add: closed_first_length)
  have "logFile l \<noteq> Some f" using assms(1) len by (auto simp: owns_iff)
  moreover have "f < length (fds w')" using op by (auto simp: is_open_def)
  ultimately show ?thesis using l OpenFile_opens(4) [OF o] by simp
qed

lemma owns_EnableFile:
  assumes "owns l w" and "EnableFile e l p w = (r, l', w')"
  shows "owns l' w'"
proof (cases r)
  case None
  with EnableFile_succeeds [OF assms(1), of e p l' w'] assms(2)
  obtain f where "logFile l' = Some f" "open_handles w' = [f]" "f < length (fds w')"
    by auto
  then show ?thesis by (simp add: owns_def)
next
  case (Some err)
  with EnableFile_fails [OF assms(1), of e p err l' w'] assms(2)
  have "l' = l" "open_handles w' = []" "length (fds w') = length (fds w)" by auto
  then show ?thesis using assms(1) by (auto simp: owns_def split: option.splits)
qed

lemma owns_config: "logFile l' = logFile l \<Longrightarrow> owns l w \<Longrightarrow> owns l' w"
  by (simp add: owns_def)

lemma owns_step:
  assumes "owns l w" and "step e c (l, w) = (l', w')"
  shows "owns l' w'"
proof (cases c)
  case (Call_Debug m v)
  with assms(2) have "l' = l" "fds w' = fds w" by (auto simp: fds_Debug)
  then show ?thesis using owns_fds assms(1) by blast
next
  case (Call_Info m v)
  with assms(2) have "l' = l" "fds w' = fds w" by (auto simp: fds_Info)
  then show ?thesis using owns_fds assms(1) by blast
next
  case (Call_Warning m v)
  with assms(2) have "l' = l" "fds w' = fds w" by (auto simp: fds_Warning)
  then show ?thesis using owns_fds assms(1) by blast
next
  case (Call_Error m v)
  with assms(2) have "l' = l" "fds w' = fds w" by (auto simp: fds_Error)
  then show ?thesis using owns_fds assms(1) by blast
next
  case (Call_Fatal m v)
  with assms(2) have "l' = l" "fds w' = fds w" by (auto simp: fds_Fatal)
  then show ?thesis using owns_fds assms(1) by blast
next
  case Call_Close
  with assms(2) have "l' = l" "w' = snd (Close e l w)" by auto
  then show ?thesis using owns_Close [OF assms(1)] by simp
next
  case (Call_SetLevel lv)
  with assms(2) have "logFile l' = logFile l" "w' = w" by (auto simp: SetLevel_def)
  then show ?thesis using owns_config assms(1) by blast
next
  case (Call_WithColors b)
  with assms(2) have "l' = l" "fds w' = fds w" by (auto simp: WithColors_def)
  then show ?thesis using owns_fds assms(1) by blast
next
  case (Call_WithTimeFormat s)
  with assms(2) have "logFile l' = logFile l" "w' = w" by (auto simp: WithTimeFormat_def)
  then show ?thesis using owns_config assms(1) by blast
next
  case (Call_WithCaller b)
  with assms(2) have "logFile l' = logFile l" "w' = w" by (auto simp: WithCaller_def)
  then show ?thesis using owns_config assms(1) by blast
next
  case Call_WithJSON
  with assms(2) have "logFile l' = logFile l" "w' = w" by (auto simp: WithJSON_def)
  then show ?thesis using owns_config assms(1) by blast
next
  case Call_DisableFile
  with assms(2) have "DisableFile e l w = (l', w')" by simp
  then show ?thesis using owns_DisableFile [OF assms(1)] by blast
next
  case (Call_EnableFile p)
  obtain r where "EnableFile e l p w = (r, l', w')"
    using assms(2) Call_EnableFile by (cases "EnableFile e l p w") auto
  then show ?thesis using owns_EnableFile [OF assms(1)] by blast
qed

lemma owns_run: "owns l w \<Longrightarrow> run cs (l, w) = (l', w') \<Longrightarrow> owns l' w'"
proof (induction cs arbitrary: l w)
  case Nil
  then show ?case by simp
next
  case (Cons ec cs)
  obtain e c where ec: "ec = (e, c)" by (cases ec)
  obtain l1 w1 where s: "step e c (l, w) = (l1, w1)" by (cases "step e c (l, w)")
  show ?case
  proof (cases "status w = Running")
    case True
    with Cons.prems(2) ec s have "run cs (l1, w1) = (l', w')" by simp
    then show ?thesis using Cons.IH [OF owns_step [OF Cons.prems(1) s]] by simp
  next
    case False
    with Cons.prems ec show ?thesis by simp
  qed
qed

lemma fold_apply_Option:
  "fold apply_Option opts (l, w) = (l', w') \<Longrightarrow>
     fds w' = fds w \<and> logFile l' = logFile l"
proof (induction opts arbitrary: l w)
  case Nil
  then show ?case by simp
next
  case (Cons opt opts)
  obtain l1 w1 where a: "apply_Option opt (l, w) = (l1, w1)"
    by (cases "apply_Option opt (l, w)")
  then have b: "fds w1 = fds w \<and> logFile l1 = logFile l"
    by (cases opt) (auto split: option.splits if_splits)
  have "fold apply_Option opts (l1, w1) = (l', w')" using Cons.prems a by simp
  from Cons.IH [OF this] b show ?case by simp
qed


lemma open_handles_fds: "fds w' = fds w \<Longrightarrow> open_handles w' = open_handles w"
proof -
  assume a: "fds w' = fds w"
  then have "is_open w' = is_open w" by (simp add: is_open_def fun_eq_iff)
  then show ?thesis using a by (simp add: open_handles_def)
qed

lemma NewLogger_owns:
  assumes "open_handles w0 = []" and "NewLogger e opts w0 = (r, w)"
  shows "case r of Inl err \<Rightarrow> open_handles w = [] | Inr l \<Rightarrow> owns l w"
proof -
  let ?l0 = "\<lparr>infoLogger = None, errorLogger = None, debugLogger = None,
              warningLogger = None, fatalLogger = None, logFile = None,
              level = DEBUG, out = Stdout, filePath = [],
              timeFormat = ''2006-01-02 15:04:05'',
              withCaller = False, jsonMode = False\<rparr>"
  obtain l1 w1 where f: "fold apply_Option opts (?l0, w0) = (l1, w1)"
    by (cases "fold apply_Option opts (?l0, w0)")
  from fold_apply_Option [OF f] have l1: "logFile l1 = None" and w1: "fds w1 = fds w0"
    by simp_all
  define w2 where "w2 = (if Getenv e ''FORCE_COLOR'' \<noteq> [] then w1\<lparr>NoColor := False\<rparr>
                else if Getenv e ''NO_COLOR'' \<noteq> [] then w1\<lparr>NoColor := True\<rparr>
                else w1)"
  define l2 where "l2 = l1\<lparr>infoLogger := log_New (out l1) (colorString e w2 FgCyan ''[INFO] ''),
                  errorLogger := log_New (out l1) (colorString e w2 FgRed ''[ERROR] ''),
                  debugLogger := log_New (out l1) (colorString e w2 FgGreen ''[DEBUG] ''),
                  warningLogger := log_New (out l1) (colorString e w2 FgYellow ''[WARNING] ''),
                  fatalLogger := log_New (out l1) (colorString e w2 FgMagenta ''[FATAL] '')\<rparr>"
  have w2: "fds w2 = fds w0" using w1 by (simp add: w2_def)
  then have o2: "open_handles w2 = []" using assms(1) open_handles_fds by metis
  have l2: "logFile l2 = None" using l1 by (simp add: l2_def)
  have N: "(r, w) = (if filePath l2 \<noteq> []
         then (case OpenFile e (filePath l2) w2 of
                 (Inl err, w3) \<Rightarrow> (Inl err, w3)
               | (Inr f, w3) \<Rightarrow> (Inr (l2\<lparr>logFile := Some f\<rparr>), w3))
         else (Inr l2, w2))"
    using assms(2) unfolding NewLogger_def f Let_def w2_def l2_def by simp
  show ?thesis
  proof (cases "filePath l2 \<noteq> []")
    case False
    with N have "r = Inr l2" "w = w2" by simp_all
    then show ?thesis using o2 l2 by (simp add: owns_def)
  next
    case True
    obtain x w3 where o: "OpenFile e (filePath l2) w2 = (x, w3)"
      by (cases "OpenFile e (filePath l2) w2")
    show ?thesis
    proof (cases x)
      case (Inl err)
      with N True o have "r = Inl err" "w = w3" by simp_all
      moreover have "w3 = w2" using OpenFile_fails o Inl by blast
      ultimately show ?thesis using o2 by simp
    next
      case (Inr f)
      with N True o have r: "r = Inr (l2\<lparr>logFile := Some f\<rparr>)" "w = w3" by simp_all
      have "\<forall>h. \<not> is_open w2 h" using o2 by (simp add: open_handles_nil)
      then have "\<forall>h. is_open w3 h \<longleftrightarrow> h = f"
        using OpenFile_opens(3) [of e "filePath l2" w2 f w3] o Inr by simp
      then have s: "\<forall>h. is_open w3 h \<longleftrightarrow> h = f" .
      then have "is_open w3 f" by simp
      then have "f < length (fds w3)" by (simp add: is_open_def)
      moreover have "open_handles w3 = [f]" using s by (simp add: open_handles_single)
      ultimately have "open_handles w3 = [f]" "f < length (fds w3)" by simp_all
      then show ?thesis using r by (simp add: owns_def)
    qed
  qed
qed


text \<open>
  C6. From a process that has no file open, through the constructor and any sequence of
  calls on the logger it returns, at most one file handle is open at any time, and it
  is the one the logger holds in \<open>logFile\<close>. \<open>EnableFile\<close> closes the handle the logger
  holds before it opens the new file: when \<open>EnableFile(pathA)\<close> and then
  \<open>EnableFile(pathB)\<close> succeed, the only handle open after the first is one on \<open>pathA\<close>,
  and the only handle open after the second is another one, on \<open>pathB\<close>, the handle on
  \<open>pathA\<close> being closed. After \<open>DisableFile\<close> no handle is open and the logger holds
  none. A constructor that fails leaves no handle open.
\<close>

theorem at_most_one_open_handle:
  assumes "open_handles w0 = []" and "NewLogger e0 opts w0 = (Inr l0, w1)"
    and "run cs (l0, w1) = (l, w)"
  shows "length (open_handles w) \<le> 1
         \<and> set (open_handles w) \<subseteq> set_option (logFile l)
         \<and> (\<forall>eA eB pA pB lA wA lB wB.
               EnableFile eA l pA w = (None, lA, wA)
               \<and> EnableFile eB lA pB wA = (None, lB, wB) \<longrightarrow>
               (\<exists>hA hB. logFile lA = Some hA \<and> open_handles wA = [hA]
                   \<and> fd_path wA hA = pA
                   \<and> logFile lB = Some hB \<and> open_handles wB = [hB]
                   \<and> fd_path wB hB = pB
                   \<and> hA \<noteq> hB \<and> \<not> is_open wB hA))
         \<and> (\<forall>e' l' w'. DisableFile e' l w = (l', w') \<longrightarrow>
               logFile l' = None \<and> open_handles w' = [])
         \<and> (\<forall>e' err w'. NewLogger e' opts w0 = (Inl err, w') \<longrightarrow> open_handles w' = [])"
proof -
  have "owns l0 w1" using NewLogger_owns [OF assms(1,2)] by simp
  then have o: "owns l w" using owns_run assms(3) by blast
  have 1: "length (open_handles w) \<le> 1" by (rule owns_at_most_one [OF o])
  have 2: "set (open_handles w) \<subseteq> set_option (logFile l)" using o by (simp add: owns_def)
  have 3: "\<exists>hA hB. logFile lA = Some hA \<and> open_handles wA = [hA] \<and> fd_path wA hA = pA
                   \<and> logFile lB = Some hB \<and> open_handles wB = [hB] \<and> fd_path wB hB = pB
                   \<and> hA \<noteq> hB \<and> \<not> is_open wB hA"
    if a: "EnableFile eA l pA w = (None, lA, wA)"
      and b: "EnableFile eB lA pB wA = (None, lB, wB)" for eA eB pA pB lA wA lB wB
  proof -
    from EnableFile_succeeds [OF o a] obtain hA where
      hA: "logFile lA = Some hA" "open_handles wA = [hA]" "fd_path wA hA = pA" by blast
    have oA: "owns lA wA" by (rule owns_EnableFile [OF o a])
    from EnableFile_succeeds [OF oA b] obtain hB where
      hB: "logFile lB = Some hB" "open_handles wB = [hB]" "fd_path wB hB = pB"
        "logFile lA \<noteq> Some hB" by blast
    have ne: "hA \<noteq> hB" using hA(1) hB(4) by auto
    moreover have "\<not> is_open wB hA" using hB(2) ne by (simp add: open_handles_single)
    ultimately show ?thesis using hA hB by blast
  qed
  have 4: "logFile l' = None \<and> open_handles w' = []"
    if "DisableFile e' l w = (l', w')" for e' l' w'
    using DisableFile_none [OF o that] by simp
  have 5: "open_handles w' = []" if "NewLogger e' opts w0 = (Inl err, w')" for e' err w'
    using NewLogger_owns [OF assms(1) that] by simp
  from 1 2 3 4 5 show ?thesis by blast
qed


theorem at_most_one_open_handle_witness:
  "open_handles ex_world = []
   \<and> NewLogger ex_env [WithFilePath ''app.log'', WithLevel INFO] ex_world
       = (Inr ex_logger, ex_started)
   \<and> run [(ex_env, Call_SetLevel DEBUG)] (ex_logger, ex_started)
       = (SetLevel ex_logger DEBUG, ex_started)
   \<and> length (open_handles ex_started) \<le> 1
   \<and> fst (EnableFile ex_env (SetLevel ex_logger DEBUG) ''a.log'' ex_started) = None
   \<and> open_handles (snd (snd (EnableFile ex_env (SetLevel ex_logger DEBUG) ''a.log''
                                ex_started))) = [1]
   \<and> open_handles (snd (DisableFile ex_env (SetLevel ex_logger DEBUG) ex_started)) = []"
proof -
  let ?l = "SetLevel ex_logger DEBUG"
  have a: "open_handles ex_world = []" by (simp add: open_handles_def ex_world_def)
  have r: "run [(ex_env, Call_SetLevel DEBUG)] (ex_logger, ex_started) = (?l, ex_started)"
    by (simp add: ex_started_def)
  note t = at_most_one_open_handle [OF a ex_NewLogger r]
  obtain lA wA where A: "EnableFile ex_env ?l ''a.log'' ex_started = (None, lA, wA)"
    by (simp add: EnableFile_def OpenFile_def ex_env_def Let_def)
  obtain lB wB where B: "EnableFile ex_env lA ''b.log'' wA = (None, lB, wB)"
    by (simp add: EnableFile_def OpenFile_def ex_env_def Let_def)
  from t A B obtain hA where hA: "open_handles wA = [hA]" "logFile lA = Some hA" by blast
  have "logFile lA = Some 1"
    using A by (auto simp: EnableFile_def OpenFile_def File_Close_def Let_def SetLevel_def
        ex_env_def ex_logger_def ex_started_def split: if_splits)
  then have "open_handles wA = [1]" using hA by simp
  moreover obtain l' w' where D: "DisableFile ex_env ?l ex_started = (l', w')"
    by (cases "DisableFile ex_env ?l ex_started")
  moreover from t D have "open_handles w' = []" by blast
  ultimately show ?thesis using a ex_NewLogger r t A by simp
qed

subsection \<open>Closing\<close>

lemma Close_no_file: "logFile l = None \<Longrightarrow> Close e l w = (None, w)"
  by (simp add: Close_def)

lemma Close_reports:
  "logFile l = Some f \<Longrightarrow> is_open w f \<Longrightarrow>
     fst (Close e l w) = map_option (PathError ''close'' (fd_path w f)) (close_errno e)"
  by (simp add: Close_def File_Close_def)

lemma Close_again:
  "logFile l = Some f \<Longrightarrow>
     fst (Close e' l (snd (Close e l w)))
       = Some (PathError ''close'' (fd_path w f) ''file already closed'')"
  by (auto simp: Close_def File_Close_def is_open_def fd_path_def)

text \<open>
  C2. \<open>Close\<close> on a logger without a file returns no error, and \<open>Close\<close> on a logger
  whose file is open returns what closing the file returns. \<open>Close\<close> does not clear
  \<open>logFile\<close>, as \<open>DisableFile\<close> does: a second \<open>Close\<close> closes the same file once more
  and returns the error of a file that is already closed. Here the logger of
  \<open>NewLogger(WithFilePath("app.log"), WithLevel(INFO))\<close> is closed twice.
\<close>

theorem Close_twice_returns_error:
  "fst (Close ex_env ex_logger ex_started) = None
   \<and> fst (Close ex_env ex_logger (snd (Close ex_env ex_logger ex_started)))
       = Some (PathError ''close'' ''app.log'' ''file already closed'')"
  by (simp add: Close_def File_Close_def is_open_def fd_path_def ex_env_def ex_logger_def
      ex_started_def)

subsection \<open>A new file that cannot be opened\<close>

lemma EnableFile_failure_keeps_logFile:
  "open_errno e p = Some cause \<Longrightarrow>
     EnableFile e l p w = (Some (PathError ''open'' p cause), l, closed_first e l w)"
  by (simp add: EnableFile_cases OpenFile_def)

lemma EnableFile_failure_without_file:
  "open_errno e p = Some cause \<Longrightarrow> logFile l = None \<Longrightarrow>
     EnableFile e l p w = (Some (PathError ''open'' p cause), l, w)"
  by (simp add: EnableFile_failure_keeps_logFile closed_first_def)

lemma sink_open_fds: "fds w' = fds w \<Longrightarrow> sink_open l w' = sink_open l w"
  by (cases "logFile l") (simp_all add: sink_open_def is_open_def)

lemma disk_Println: "disk (Println e g m w) = disk w"
  by (simp add: Println_def split: option.split)

lemma disk_log_console: "disk (log_console e l lv m w) = disk w"
  by (simp add: log_console_def disk_Println)

lemma File_Write_closed: "\<not> is_open w f \<Longrightarrow> File_Write f b w
    = (Some (PathError ''write'' (fd_path w f) ''file already closed''), w)"
  by (simp add: File_Write_def)

lemma disk_log_no_sink:
  assumes "\<not> sink_open l w"
  shows "disk (log e l lv m w) = disk w"
proof (cases "logFile l")
  case None
  then show ?thesis by (simp add: log_def Let_def disk_log_console)
next
  case (Some f)
  have "fds (log_console e l lv m w) = fds w" by (rule fds_log_console)
  then have "\<not> is_open (log_console e l lv m w) f"
    using assms Some by (simp add: sink_open_def is_open_def)
  then show ?thesis using Some
    by (simp add: log_def Let_def Encode_def Fprintln_def File_Write_closed
        SetEscapeHTML_def NewEncoder_def disk_log_console)
qed

lemma no_sink_counted: "sink_open l (counted v w) = sink_open l w"
  by (rule sink_open_fds) (simp add: counted_def)

lemma disk_counted: "disk (counted v w) = disk w"
  by (simp add: counted_def)

lemma disk_Debug_no_sink: "\<not> sink_open l w \<Longrightarrow> disk (Debug e l msg v w) = disk w"
  by (simp add: Debug_def fullMsg_of_eq disk_log_no_sink no_sink_counted disk_counted)

lemma disk_Info_no_sink: "\<not> sink_open l w \<Longrightarrow> disk (Info e l msg v w) = disk w"
  by (simp add: Info_def fullMsg_of_eq disk_log_no_sink no_sink_counted disk_counted)

lemma disk_Warning_no_sink: "\<not> sink_open l w \<Longrightarrow> disk (Warning e l msg v w) = disk w"
  by (simp add: Warning_def fullMsg_of_eq disk_log_no_sink no_sink_counted disk_counted)

lemma disk_Error_no_sink: "\<not> sink_open l w \<Longrightarrow> disk (Error e l msg v w) = disk w"
  by (simp add: Error_def fullMsg_of_eq disk_log_no_sink no_sink_counted disk_counted)

lemma disk_Fatal_no_sink: "\<not> sink_open l w \<Longrightarrow> disk (Fatal e l msg v w) = disk w"
  by (simp add: Fatal_def Let_def fullMsg_of_eq disk_log_no_sink no_sink_counted
      disk_counted)

lemma leveled_no_sink:
  assumes "\<not> sink_open l w"
  shows "disk (leveled S e l msg v w) = disk w"
    and "\<not> sink_open l (leveled S e l msg v w)"
proof -
  show "disk (leveled S e l msg v w) = disk w"
    using assms
    by (simp add: leveled_def disk_Debug_no_sink disk_Info_no_sink disk_Warning_no_sink
        disk_Error_no_sink disk_Fatal_no_sink)
  have "fds (leveled S e l msg v w) = fds w"
    by (simp add: leveled_def fds_Debug fds_Info fds_Warning fds_Error fds_Fatal)
  then show "\<not> sink_open l (leveled S e l msg v w)"
    using assms sink_open_fds by blast
qed

lemma closed_first_no_sink: "\<not> sink_open l (closed_first e l w)"
  by (cases "logFile l") (simp_all add: sink_open_def closed_first_def is_open_File_Close)

lemma disk_closed_first: "disk (closed_first e l w) = disk w"
  by (cases "logFile l") (simp_all add: closed_first_def File_Close_def)

text \<open>
  C3. \<open>EnableFile\<close> closes the file the logger holds before it opens the new one,
  whatever the path: the new file is opened in a world where the handle of the logger
  is closed. When the new file cannot be opened, \<open>EnableFile\<close> returns the error of the
  system and leaves the logger without a file sink that is open: the file it held is
  closed and nothing has been opened. No later call of a leveled method emits anything
  to a file, the disk stays as it was before \<open>EnableFile\<close>, and this goes on call after
  call. The field \<open>logFile\<close> itself is not assigned on this path: it is \<open>nil\<close> when it
  was, and holds the handle just closed otherwise.
\<close>

theorem EnableFile_failure_no_sink:
  assumes "open_errno e p = Some cause"
  shows "EnableFile e l p w = (Some (PathError ''open'' p cause), l, closed_first e l w)
         \<and> (\<forall>p'. EnableFile e l p' w =
               (case OpenFile e p' (closed_first e l w) of
                  (Inl err, w2) \<Rightarrow> (Some err, l, w2)
                | (Inr f, w2) \<Rightarrow> (None, l\<lparr>logFile := Some f\<rparr>, w2)))
         \<and> (\<forall>f. logFile l = Some f \<longrightarrow> \<not> is_open (closed_first e l w) f)
         \<and> \<not> sink_open l (closed_first e l w)
         \<and> disk (closed_first e l w) = disk w
         \<and> (\<forall>S e' msg v.
               disk (leveled S e' l msg v (closed_first e l w)) = disk w
               \<and> \<not> sink_open l (leveled S e' l msg v (closed_first e l w)))"
proof -
  note n = closed_first_no_sink [of l e w]
  have "\<forall>f. logFile l = Some f \<longrightarrow> \<not> is_open (closed_first e l w) f"
    using n by (simp add: sink_open_cases)
  moreover have "\<forall>S e' msg v.
               disk (leveled S e' l msg v (closed_first e l w)) = disk w
               \<and> \<not> sink_open l (leveled S e' l msg v (closed_first e l w))"
    using leveled_no_sink [OF n] by (simp add: disk_closed_first)
  ultimately show ?thesis
    using EnableFile_failure_keeps_logFile [OF assms, of l w] EnableFile_cases [of e l _ w]
      n disk_closed_first [of e l w]
    by simp
qed

theorem EnableFile_failure_no_sink_witness:
  "open_errno ex_env ''/missing/b.log'' = Some ''no such file or directory''
   \<and> sink_open ex_logger ex_started
   \<and> EnableFile ex_env ex_logger ''/missing/b.log'' ex_started
       = (Some (PathError ''open'' ''/missing/b.log'' ''no such file or directory''),
          ex_logger, ex_started\<lparr>fds := [(''app.log'', False)]\<rparr>)
   \<and> \<not> sink_open ex_logger (ex_started\<lparr>fds := [(''app.log'', False)]\<rparr>)
   \<and> disk (Info ex_env ex_logger ''hi'' [] (ex_started\<lparr>fds := [(''app.log'', False)]\<rparr>))
       = disk ex_started"
proof -
  have o: "open_errno ex_env ''/missing/b.log'' = Some ''no such file or directory''"
    by (simp add: ex_env_def)
  have so: "sink_open ex_logger ex_started"
    by (simp add: sink_open_def ex_logger_def ex_started_def is_open_def)
  have c: "closed_first ex_env ex_logger ex_started
             = ex_started\<lparr>fds := [(''app.log'', False)]\<rparr>"
    by (simp add: closed_first_def File_Close_def is_open_def fd_path_def ex_logger_def
        ex_started_def)
  have lm: "leveled INFO = Info" by (simp add: leveled_def level_defs)
  note t = EnableFile_failure_no_sink [OF o, of ex_logger ex_started]
  from t have d: "disk (leveled INFO ex_env ex_logger ''hi'' []
                      (closed_first ex_env ex_logger ex_started)) = disk ex_started"
    by blast
  from t have r: "EnableFile ex_env ex_logger ''/missing/b.log'' ex_started
      = (Some (PathError ''open'' ''/missing/b.log'' ''no such file or directory''),
         ex_logger, closed_first ex_env ex_logger ex_started)"
    by blast
  from t have n: "\<not> sink_open ex_logger (closed_first ex_env ex_logger ex_started)"
    by blast
  from d r n show ?thesis using o so by (simp add: c lm)
qed

lemma Close_after_failed_EnableFile:
  assumes "open_errno e p = Some cause" and "logFile l = Some f"
  shows "fst (Close e' l (snd (snd (EnableFile e l p w))))
           = Some (PathError ''close'' (fd_path w f) ''file already closed'')"
  using assms
  by (auto simp: EnableFile_failure_keeps_logFile closed_first_def Close_def File_Close_def
      is_open_def fd_path_def)

end
